theory Spec2Isabelle
  imports Main "HOL-Library.AList"
begin

section \<open>Push client: FastmailEventSourceClient (eventsource-client.ts)\<close>

text \<open>
  The class is modelled as a record of its private fields plus the two pieces of the
  JavaScript runtime it talks to: the table of pending timers (\<open>setTimeout\<close> /
  \<open>clearTimeout\<close>) and the trace of calls that leave the object (opening and closing an
  EventSource, arming and clearing a timer, invoking a caller-supplied callback).
  The field \<open>eventSource\<close> is \<open>None\<close> for \<open>null\<close> and otherwise holds the
  \<open>readyState\<close> of the EventSource object. \<open>eventSourceUrl\<close> is a URL that
  \<open>new URL\<close> accepts (it comes from the JMAP session document).
  Optional callbacks are flags: \<open>True\<close> when the caller supplied one.
  \<open>handleStateEvent\<close> is left out: it reads the notification and calls back, and
  neither reads nor writes a field of the client.
\<close>

datatype ready_state = CONNECTING | OPEN | CLOSED

record client_options =
  eventSourceUrl :: string
  accessToken :: string
  accountId :: string
  emailAccountId :: string
  onError :: bool
  onConnected :: bool
  onDisconnected :: bool

datatype effect =
    NewEventSource string "(string \<times> string) list" string
  | CloseEventSource
  | SetTimeout nat nat
  | ClearTimeout nat
  | CallOnError string string
  | CallOnConnected string
  | CallOnDisconnected string

record client =
  options :: client_options
  eventSource :: "ready_state option"
  reconnectAttempts :: nat
  reconnectTimeout :: "nat option"
  closed :: bool
  timers :: "nat list"
  nextTimer :: nat
  trace :: "effect list"

definition maxReconnectAttempts :: nat where
  "maxReconnectAttempts = 10"

definition baseReconnectDelay :: nat where
  "baseReconnectDelay = 1000"

definition maxReconnectDelay :: nat where
  "maxReconnectDelay = 300000"

definition new_client :: "client_options \<Rightarrow> client" where
  "new_client opts =
     \<lparr> options = opts, eventSource = None, reconnectAttempts = 0,
       reconnectTimeout = None, closed = False, timers = [], nextTimer = 0, trace = [] \<rparr>"

definition emit :: "effect \<Rightarrow> client \<Rightarrow> client" where
  "emit e c = c\<lparr> trace := trace c @ [e] \<rparr>"

text \<open>\<open>buildUrl\<close>: the session's URL with the query parameters \<open>types\<close> and \<open>ping\<close> set.\<close>

definition buildUrl :: "client \<Rightarrow> string \<times> (string \<times> string) list" where
  "buildUrl c = (eventSourceUrl (options c), [(''types'', ''Email''), (''ping'', ''60'')])"

definition disconnect :: "client \<Rightarrow> client" where
  "disconnect c =
     (let c1 = (case reconnectTimeout c of
                  Some h \<Rightarrow> emit (ClearTimeout h)
                              (c\<lparr> timers := removeAll h (timers c), reconnectTimeout := None \<rparr>)
                | None \<Rightarrow> c)
      in (case eventSource c1 of
            Some rs \<Rightarrow> emit CloseEventSource (c1\<lparr> eventSource := None \<rparr>)
          | None \<Rightarrow> c1))"

definition connect :: "client \<Rightarrow> client" where
  "connect c =
     (if closed c then c
      else
        let c1 = (if eventSource c \<noteq> None then disconnect c else c);
            url = buildUrl c1
        in emit (NewEventSource (fst url) (snd url) (accessToken (options c1)))
                (c1\<lparr> eventSource := Some CONNECTING \<rparr>))"

definition handleDisconnect :: "client \<Rightarrow> client" where
  "handleDisconnect c =
     (let c0 = (if onDisconnected (options c)
                then emit (CallOnDisconnected (emailAccountId (options c))) c else c)
      in if closed c0 then c0
         else if reconnectAttempts c0 \<ge> maxReconnectAttempts then
           (if onError (options c0)
            then emit (CallOnError (emailAccountId (options c0)) ''Max reconnect attempts reached'') c0
            else c0)
         else
           let delay = min (baseReconnectDelay * 2 ^ reconnectAttempts c0) maxReconnectDelay;
               h = nextTimer c0
           in emit (SetTimeout h delay)
                (c0\<lparr> reconnectAttempts := reconnectAttempts c0 + 1,
                     reconnectTimeout := Some h,
                     timers := timers c0 @ [h],
                     nextTimer := h + 1 \<rparr>))"

text \<open>The handlers \<open>connect\<close> installs on the EventSource. The library has set the
  object's \<open>readyState\<close> when it calls them.\<close>

definition onopen :: "client \<Rightarrow> client" where
  "onopen c =
     (let c1 = c\<lparr> eventSource := Some OPEN, reconnectAttempts := 0 \<rparr>
      in if onConnected (options c1)
         then emit (CallOnConnected (emailAccountId (options c1))) c1 else c1)"

definition onerror :: "ready_state \<Rightarrow> client \<Rightarrow> client" where
  "onerror rs c =
     (let c1 = c\<lparr> eventSource := Some rs \<rparr>
      in if rs = CLOSED then handleDisconnect c1 else c1)"

text \<open>The callback given to \<open>setTimeout\<close> in \<open>handleDisconnect\<close>: the runtime drops the
  timer from its table and calls \<open>connect\<close>.\<close>

definition timer_fired :: "nat \<Rightarrow> client \<Rightarrow> client" where
  "timer_fired h c = connect (c\<lparr> timers := removeAll h (timers c) \<rparr>)"

definition close :: "client \<Rightarrow> client" where
  "close c = disconnect (c\<lparr> closed := True \<rparr>)"

definition isConnected :: "client \<Rightarrow> bool" where
  "isConnected c = (eventSource c = Some OPEN)"

definition updateAccessToken :: "string \<Rightarrow> client \<Rightarrow> client" where
  "updateAccessToken newToken c =
     (let wasConnected = isConnected c;
          c1 = disconnect c;
          c2 = c1\<lparr> options := (options c1)\<lparr> accessToken := newToken \<rparr> \<rparr>
      in if wasConnected then connect (c2\<lparr> reconnectAttempts := 0 \<rparr>) else c2)"

subsection \<open>Runs of the client\<close>

text \<open>
  What can happen to a client: a call of one of its public methods, an event of its
  live EventSource (\<open>open\<close> while connecting; \<open>error\<close>, after which the library is
  either reconnecting by itself or has given up and closed), or a pending timer firing.
  \<open>step\<close> is \<open>None\<close> when the event cannot happen in the state.
\<close>

datatype client_event =
    Connect | Disconnect | Close | UpdateAccessToken string
  | EsOpen | EsError ready_state | TimerFired nat

fun step :: "client_event \<Rightarrow> client \<Rightarrow> client option" where
  "step Connect c = Some (connect c)"
| "step Disconnect c = Some (disconnect c)"
| "step Close c = Some (close c)"
| "step (UpdateAccessToken t) c = Some (updateAccessToken t c)"
| "step EsOpen c = (if eventSource c = Some CONNECTING then Some (onopen c) else None)"
| "step (EsError rs) c =
     (if (eventSource c = Some CONNECTING \<or> eventSource c = Some OPEN) \<and> rs \<noteq> OPEN
      then Some (onerror rs c) else None)"
| "step (TimerFired h) c = (if h \<in> set (timers c) then Some (timer_fired h c) else None)"

fun run :: "client_event list \<Rightarrow> client \<Rightarrow> client option" where
  "run [] c = Some c"
| "run (e # es) c = (case step e c of None \<Rightarrow> None | Some c' \<Rightarrow> run es c')"

text \<open>The delays of the timers armed so far, and the number of EventSources opened.\<close>

fun scheduled_of :: "effect list \<Rightarrow> nat list" where
  "scheduled_of [] = []"
| "scheduled_of (SetTimeout h d # es) = d # scheduled_of es"
| "scheduled_of (e # es) = scheduled_of es"

definition scheduled :: "client \<Rightarrow> nat list" where
  "scheduled c = scheduled_of (trace c)"

fun opened_of :: "effect list \<Rightarrow> nat" where
  "opened_of [] = 0"
| "opened_of (NewEventSource u q t # es) = Suc (opened_of es)"
| "opened_of (e # es) = opened_of es"

definition opened :: "client \<Rightarrow> nat" where
  "opened c = opened_of (trace c)"

text \<open>The delay the policy prescribes for the \<open>N\<close>th reconnect, \<open>N\<close> counted from 1.\<close>

definition backoff_delay :: "nat \<Rightarrow> nat" where
  "backoff_delay N = min (1000 * 2 ^ (N - 1)) 300000"

text \<open>Two facts about every state a client can reach: the armed delays are the first
  \<open>reconnectAttempts\<close> values of the policy as long as no connection has opened, and a
  pending timer is always the one held in \<open>reconnectTimeout\<close>, armed after the
  EventSource gave up.\<close>

definition backoff_inv :: "client \<Rightarrow> bool" where
  "backoff_inv c \<longleftrightarrow>
     scheduled c = map backoff_delay [1..<Suc (reconnectAttempts c)] \<and>
     reconnectAttempts c \<le> 10 \<and> eventSource c \<noteq> Some OPEN"

definition timers_tracked :: "client \<Rightarrow> bool" where
  "timers_tracked c \<longleftrightarrow>
     set (timers c) \<subseteq> set_option (reconnectTimeout c) \<and>
     (timers c \<noteq> [] \<longrightarrow> eventSource c = Some CLOSED)"

text \<open>A concrete client and two concrete runs, used to instantiate the theorems.\<close>

definition example_options :: client_options where
  "example_options =
     \<lparr> eventSourceUrl = ''https://api.fastmail.com/jmap/event/'', accessToken = ''tok1'',
       accountId = ''u1'', emailAccountId = ''acct1'',
       onError = True, onConnected = True, onDisconnected = True \<rparr>"

definition three_failures :: "client_event list" where
  "three_failures =
     [Connect, EsError CLOSED, TimerFired 0, EsError CLOSED, TimerFired 1, EsError CLOSED]"

definition waiting_for_backoff :: "client_event list" where
  "waiting_for_backoff = [Connect, EsError CLOSED]"


definition exhausted_client :: client where
  "exhausted_client = (new_client example_options)\<lparr> reconnectAttempts := 10 \<rparr>"


section \<open>Event dispatcher: callWebhook (webhook-caller.ts)\<close>

text \<open>
  What one \<open>fetch\<close> of the webhook can give: a rejection (network failure), or a
  response with its status; the flag says whether \<open>response.text()\<close>, which the 4xx
  branch awaits inside the \<open>try\<close>, resolves (it rejects when the body cannot be read).
  The server is a function from the attempt index to what that attempt's \<open>fetch\<close> gives.
  The function's effects are its requests and its sleeps, in order.
\<close>

datatype fetch_outcome = NetworkError | Response nat bool

datatype webhook_effect = Fetch string "string option" | Sleep nat

definition MAX_RETRIES :: nat where
  "MAX_RETRIES = 3"

definition BASE_RETRY_DELAY :: nat where
  "BASE_RETRY_DELAY = 1000"

definition response_ok :: "nat \<Rightarrow> bool" where
  "response_ok status \<longleftrightarrow> 200 \<le> status \<and> status \<le> 299"

text \<open>The part of the loop body after the \<open>try\<close>: wait before the next attempt.\<close>

definition wait_before_retry :: "nat \<Rightarrow> webhook_effect list \<Rightarrow> webhook_effect list" where
  "wait_before_retry attempt tr =
     (if attempt < MAX_RETRIES then tr @ [Sleep (BASE_RETRY_DELAY * 2 ^ attempt)] else tr)"

function callWebhook_loop ::
  "string \<Rightarrow> string option \<Rightarrow> (nat \<Rightarrow> fetch_outcome) \<Rightarrow> nat \<Rightarrow> webhook_effect list
     \<Rightarrow> bool \<times> webhook_effect list" where
  "callWebhook_loop acct newState server attempt tr =
     (if attempt \<le> MAX_RETRIES then
        (let tr1 = tr @ [Fetch acct newState] in
         case server attempt of
           NetworkError \<Rightarrow>
             callWebhook_loop acct newState server (attempt + 1)
               (wait_before_retry attempt tr1)
         | Response status text_ok \<Rightarrow>
             if response_ok status then (True, tr1)
             else if 400 \<le> status \<and> status < 500 then
               (if text_ok then (False, tr1)
                else callWebhook_loop acct newState server (attempt + 1)
                       (wait_before_retry attempt tr1))
             else callWebhook_loop acct newState server (attempt + 1)
                    (wait_before_retry attempt tr1))
      else (False, tr))"
  by pat_completeness auto
termination
  by (relation "measure (\<lambda>(e, n, s, attempt, tr). Suc MAX_RETRIES - attempt)") auto

declare callWebhook_loop.simps [simp del]

definition callWebhook ::
  "string \<Rightarrow> string option \<Rightarrow> (nat \<Rightarrow> fetch_outcome) \<Rightarrow> bool \<times> webhook_effect list" where
  "callWebhook acct newState server = callWebhook_loop acct newState server 0 []"

text \<open>The requests and the sleeps of a trace.\<close>

fun fetches :: "webhook_effect list \<Rightarrow> nat" where
  "fetches [] = 0"
| "fetches (Fetch e n # es) = Suc (fetches es)"
| "fetches (Sleep d # es) = fetches es"

fun sleeps :: "webhook_effect list \<Rightarrow> nat list" where
  "sleeps [] = []"
| "sleeps (Fetch e n # es) = sleeps es"
| "sleeps (Sleep d # es) = d # sleeps es"

text \<open>An attempt whose outcome the loop retries: a rejection, a response that is neither
  2xx nor 4xx, or a 4xx response whose body cannot be read.\<close>

fun retried :: "fetch_outcome \<Rightarrow> bool" where
  "retried NetworkError = True"
| "retried (Response status text_ok) =
     (\<not> response_ok status \<and> \<not> (400 \<le> status \<and> status < 500 \<and> text_ok))"

text \<open>Concrete servers: three 500s then 200; and a 404 whose body cannot be read, then 200.\<close>

definition server_500x3_then_200 :: "nat \<Rightarrow> fetch_outcome" where
  "server_500x3_then_200 k = (if k < 3 then Response 500 True else Response 200 True)"

definition server_404_unreadable_then_200 :: "nat \<Rightarrow> fetch_outcome" where
  "server_404_unreadable_then_200 k = (if k = 0 then Response 404 False else Response 200 True)"

definition server_403 :: "nat \<Rightarrow> fetch_outcome" where
  "server_403 k = Response 403 True"

text \<open>The trace of \<open>k\<close> retried attempts, each followed by its wait, and one more attempt.\<close>

definition retry_trace :: "string \<Rightarrow> string option \<Rightarrow> nat \<Rightarrow> nat \<Rightarrow> webhook_effect list" where
  "retry_trace acct newState a k =
     concat (map (\<lambda>j. [Fetch acct newState, Sleep (1000 * 2 ^ j)]) [a..<k]) @ [Fetch acct newState]"

definition server_down :: "nat \<Rightarrow> fetch_outcome" where
  "server_down k = NetworkError"


section \<open>Strings\<close>

text \<open>
  A JavaScript string is modelled as a list of characters; the model covers ASCII
  strings (on them \<open>toUpperCase\<close>, \<open>toLowerCase\<close>, \<open>trim\<close> and the regular expressions
  used below act character by character as defined here). \<open>is_space\<close> is the class
  \<open>\s\<close> on ASCII: tab, line feed, vertical tab, form feed, carriage return, space.
\<close>

definition is_space :: "char \<Rightarrow> bool" where
  "is_space c \<longleftrightarrow> (of_char c :: nat) \<in> {9, 10, 11, 12, 13, 32}"

definition is_lower :: "char \<Rightarrow> bool" where
  "is_lower c \<longleftrightarrow> 97 \<le> (of_char c :: nat) \<and> (of_char c :: nat) \<le> 122"

definition is_upper :: "char \<Rightarrow> bool" where
  "is_upper c \<longleftrightarrow> 65 \<le> (of_char c :: nat) \<and> (of_char c :: nat) \<le> 90"

definition is_digit :: "char \<Rightarrow> bool" where
  "is_digit c \<longleftrightarrow> 48 \<le> (of_char c :: nat) \<and> (of_char c :: nat) \<le> 57"

definition toUpperCase :: "string \<Rightarrow> string" where
  "toUpperCase s = map (\<lambda>c. if is_lower c then char_of ((of_char c :: nat) - 32) else c) s"

definition toLowerCase :: "string \<Rightarrow> string" where
  "toLowerCase s = map (\<lambda>c. if is_upper c then char_of ((of_char c :: nat) + 32) else c) s"

definition trim :: "string \<Rightarrow> string" where
  "trim s = rev (dropWhile is_space (rev (dropWhile is_space s)))"

text \<open>Truthiness of an optional string: \<open>undefined\<close> and the empty string are falsy.\<close>

fun truthy :: "string option \<Rightarrow> bool" where
  "truthy None = False"
| "truthy (Some s) = (s \<noteq> [])"

section \<open>Label adapter: IMAP keywords and label folders (keyword.ts)\<close>

definition INBOX_ZERO_KEYWORD_PREFIX :: string where
  "INBOX_ZERO_KEYWORD_PREFIX = ''IZ_''"

text \<open>The object \<open>INBOX_ZERO_LABELS\<close>, as its entries in order: label name, keyword.\<close>

definition INBOX_ZERO_LABELS :: "(string \<times> string) list" where
  "INBOX_ZERO_LABELS =
     [(''PROCESSED'', INBOX_ZERO_KEYWORD_PREFIX @ ''Processed''),
      (''AI_DRAFT'', INBOX_ZERO_KEYWORD_PREFIX @ ''AIDraft''),
      (''AWAITING_REPLY'', INBOX_ZERO_KEYWORD_PREFIX @ ''AwaitingReply''),
      (''NEEDS_REPLY'', INBOX_ZERO_KEYWORD_PREFIX @ ''NeedsReply''),
      (''COLD_EMAIL'', INBOX_ZERO_KEYWORD_PREFIX @ ''ColdEmail''),
      (''NEWSLETTER'', INBOX_ZERO_KEYWORD_PREFIX @ ''Newsletter'')]"

record ImapCapabilities =
  supportsKeywords :: bool
  supportsIdle :: bool
  supportsMove :: bool
  supportsCondstore :: bool
  supportsQresync :: bool
  supportsUtf8 :: bool
  supportedFlags :: "string list"
  permanentFlags :: "string list"

text \<open>\<open>replace(/\s+/g, "_")\<close>: every maximal run of white space becomes one underscore.\<close>

function replace_spaces :: "string \<Rightarrow> string" where
  "replace_spaces [] = []"
| "replace_spaces (c # cs) =
     (if is_space c then CHR ''_'' # replace_spaces (dropWhile is_space cs)
      else c # replace_spaces cs)"
  by pat_completeness auto
termination
  by (relation "measure length") (auto simp: length_dropWhile_le less_Suc_eq_le)

definition keyword_char :: "char \<Rightarrow> bool" where
  "keyword_char c \<longleftrightarrow>
     is_lower c \<or> is_upper c \<or> is_digit c \<or> c = CHR ''_'' \<or> c = CHR ''-''"

definition sanitizeKeyword :: "string \<Rightarrow> string" where
  "sanitizeKeyword keyword = take 63 (filter keyword_char (replace_spaces keyword))"

text \<open>\<open>upperLabel in INBOX_ZERO_LABELS\<close>: the object's own keys are the only property
  names without a lower-case letter that the \<open>in\<close> operator finds.\<close>

definition labelToKeyword :: "string \<Rightarrow> string" where
  "labelToKeyword label =
     (let upperLabel = toUpperCase label in
      case map_of INBOX_ZERO_LABELS upperLabel of
        Some kw \<Rightarrow> kw
      | None \<Rightarrow> sanitizeKeyword (INBOX_ZERO_KEYWORD_PREFIX @ label))"

definition keywordToLabel :: "string \<Rightarrow> string" where
  "keywordToLabel keyword =
     (if take (length INBOX_ZERO_KEYWORD_PREFIX) keyword = INBOX_ZERO_KEYWORD_PREFIX then
        (let withoutPrefix = drop (length INBOX_ZERO_KEYWORD_PREFIX) keyword in
         case find (\<lambda>(label, kw). kw = keyword) INBOX_ZERO_LABELS of
           Some (label, kw) \<Rightarrow> label
         | None \<Rightarrow> withoutPrefix)
      else keyword)"

subsection \<open>Operations on the connection\<close>

text \<open>
  The IMAP connection is outside the program. An operation is the list of commands it
  sends; the connection says which commands the server rejects (the promise rejects and
  the operation throws) and what a header search in a folder finds. The result of an
  operation is the error it threw, if any, and the commands it sent.
  \<open>getOrCreateFolder\<close> (folder.ts) is one command here.
\<close>

datatype imap_cmd =
    OpenBox string
  | AddFlags nat "string list"
  | DelFlags nat "string list"
  | SearchHeader string string
  | Copy nat string
  | Expunge
  | GetOrCreateFolder string

datatype label_error = ImapFailure imap_cmd | Error string

record connection =
  rejects :: "imap_cmd \<Rightarrow> bool"
  search_result :: "string \<Rightarrow> string \<Rightarrow> nat list"

type_synonym outcome = "label_error option \<times> imap_cmd list"

fun send_all :: "connection \<Rightarrow> imap_cmd list \<Rightarrow> outcome" where
  "send_all conn [] = (None, [])"
| "send_all conn (c # cs) =
     (if rejects conn c then (Some (ImapFailure c), [c])
      else (case send_all conn cs of (e, sent) \<Rightarrow> (e, c # sent)))"

definition default_folder :: "string option \<Rightarrow> string" where
  "default_folder folder = (case folder of None \<Rightarrow> ''INBOX'' | Some f \<Rightarrow> f)"

definition addKeyword :: "connection \<Rightarrow> nat \<Rightarrow> string \<Rightarrow> string option \<Rightarrow> outcome" where
  "addKeyword conn uid keyword folder =
     send_all conn [OpenBox (default_folder folder), AddFlags uid [sanitizeKeyword keyword]]"

definition removeKeyword :: "connection \<Rightarrow> nat \<Rightarrow> string \<Rightarrow> string option \<Rightarrow> outcome" where
  "removeKeyword conn uid keyword folder =
     send_all conn [OpenBox (default_folder folder), DelFlags uid [sanitizeKeyword keyword]]"

definition LABELS_FOLDER_PREFIX :: string where
  "LABELS_FOLDER_PREFIX = ''Labels''"

definition addLabelViaFolder :: "connection \<Rightarrow> nat \<Rightarrow> string \<Rightarrow> string option \<Rightarrow> outcome" where
  "addLabelViaFolder conn uid label sourceFolder =
     (let labelFolderPath = LABELS_FOLDER_PREFIX @ ''/'' @ sanitizeKeyword label in
      send_all conn
        [GetOrCreateFolder labelFolderPath, OpenBox (default_folder sourceFolder),
         Copy uid labelFolderPath])"

definition removeLabelViaFolder :: "connection \<Rightarrow> string \<Rightarrow> string \<Rightarrow> outcome" where
  "removeLabelViaFolder conn messageId label =
     (let labelFolderPath = LABELS_FOLDER_PREFIX @ ''/'' @ sanitizeKeyword label in
      case send_all conn [OpenBox labelFolderPath, SearchHeader ''MESSAGE-ID'' messageId] of
        (Some e, sent) \<Rightarrow> (Some e, sent)
      | (None, sent) \<Rightarrow>
          (case search_result conn labelFolderPath messageId of
             [] \<Rightarrow> (None, sent)
           | uid # rest \<Rightarrow>
               (case send_all conn [AddFlags uid [CHR 0x5C # ''Deleted''], Expunge] of
                  (e, sent') \<Rightarrow> (e, sent @ sent'))))"

definition smartAddLabel ::
  "connection \<Rightarrow> nat \<Rightarrow> string \<Rightarrow> ImapCapabilities \<Rightarrow> string option \<Rightarrow> string option \<Rightarrow> outcome" where
  "smartAddLabel conn uid label capabilities folder messageId =
     (if supportsKeywords capabilities then
        addKeyword conn uid (labelToKeyword label) (Some (default_folder folder))
      else if truthy messageId then
        addLabelViaFolder conn uid label (Some (default_folder folder))
      else
        (Some (Error ''Cannot add label without keyword support and no message ID provided''), []))"

definition smartRemoveLabel ::
  "connection \<Rightarrow> nat \<Rightarrow> string \<Rightarrow> ImapCapabilities \<Rightarrow> string option \<Rightarrow> string option \<Rightarrow> outcome" where
  "smartRemoveLabel conn uid label capabilities folder messageId =
     (if supportsKeywords capabilities then
        removeKeyword conn uid (labelToKeyword label) (Some (default_folder folder))
      else if truthy messageId then
        removeLabelViaFolder conn (the messageId) label
      else
        (Some (Error ''Cannot remove label without keyword support and no message ID provided''), []))"

text \<open>A server without keyword support, and a connection that accepts everything.\<close>

definition no_keyword_server :: ImapCapabilities where
  "no_keyword_server =
     \<lparr> supportsKeywords = False, supportsIdle = True, supportsMove = False,
       supportsCondstore = False, supportsQresync = False, supportsUtf8 = False,
       supportedFlags = [], permanentFlags = [] \<rparr>"

definition accepting_connection :: connection where
  "accepting_connection = \<lparr> rejects = (\<lambda>c. False), search_result = (\<lambda>f m. []) \<rparr>"


section \<open>Thread resolver (imap/thread.ts)\<close>

text \<open>
  The digest (\<open>crypto.createHash("sha256")\<close>, in hexadecimal) is a parameter of the
  model: the functions below use nothing of it but that it is a function.
\<close>

definition hashToThreadId :: "(string \<Rightarrow> string) \<Rightarrow> string \<Rightarrow> string" where
  "hashToThreadId sha256_hex messageId =
     (let normalized = trim (toLowerCase (filter (\<lambda>c. c \<noteq> CHR ''<'' \<and> c \<noteq> CHR ''>'') messageId));
          hash = sha256_hex normalized
      in ''thread_'' @ take 24 hash)"

fun generateThreadId ::
  "(string \<Rightarrow> string) \<Rightarrow> string \<Rightarrow> string option \<Rightarrow> string list \<Rightarrow> string \<Rightarrow> string" where
  "generateThreadId sha256_hex messageId inReplyTo references subject =
     (if truthy inReplyTo then hashToThreadId sha256_hex (the inReplyTo)
      else if length references > 0 then hashToThreadId sha256_hex (references ! 0)
      else hashToThreadId sha256_hex messageId)"

text \<open>The fields of \<open>ImapMessage\<close> that thread.ts reads; \<open>date\<close> is the time value of
  the message's date in milliseconds.\<close>

record ImapMessage =
  uid :: nat
  messageId :: string
  threadId :: string
  subject :: string
  date :: int
  inReplyTo :: "string option"
  references :: "string list option"

text \<open>\<open>map.get(k) || k\<close> on a \<open>Map\<close> of strings.\<close>

definition get_or_self :: "(string \<rightharpoonup> string) \<Rightarrow> string \<Rightarrow> string" where
  "get_or_self m k = (if truthy (m k) then the (m k) else k)"

text \<open>First pass: message id to thread id.\<close>

definition collect_thread_ids :: "ImapMessage list \<Rightarrow> (string \<rightharpoonup> string)" where
  "collect_thread_ids messages =
     fold (\<lambda>message m. m(messageId message \<mapsto> threadId message)) messages Map.empty"

text \<open>Second pass, the body of the inner loop over the references of one message: the
  state is the merge map and \<open>targetThreadId\<close>.\<close>

definition merge_reference ::
  "(string \<rightharpoonup> string) \<Rightarrow> ImapMessage \<Rightarrow> string
     \<Rightarrow> (string \<rightharpoonup> string) \<times> string \<Rightarrow> (string \<rightharpoonup> string) \<times> string" where
  "merge_reference messageIdToThread message ref st =
     (case st of (threadMergeMap, targetThreadId) \<Rightarrow>
        let refThread = messageIdToThread ref in
        if truthy refThread then
          (let mergedThread = get_or_self threadMergeMap (the refThread) in
           if mergedThread \<noteq> targetThreadId
           then (threadMergeMap(threadId message \<mapsto> mergedThread), mergedThread)
           else (threadMergeMap, targetThreadId))
        else (threadMergeMap, targetThreadId))"

text \<open>Second pass, the body of the loop over the messages.\<close>

definition merge_message ::
  "(string \<rightharpoonup> string) \<Rightarrow> ImapMessage \<Rightarrow> (string \<rightharpoonup> string) \<Rightarrow> (string \<rightharpoonup> string)" where
  "merge_message messageIdToThread message threadMergeMap =
     (let targetThreadId0 = threadId message;
          targetThreadId1 =
            (if truthy (inReplyTo message) then
               (let replyToThread = messageIdToThread (the (inReplyTo message)) in
                if truthy replyToThread then get_or_self threadMergeMap (the replyToThread)
                else targetThreadId0)
             else targetThreadId0);
          refs = (case references message of None \<Rightarrow> [] | Some rs \<Rightarrow> rs)
      in case fold (merge_reference messageIdToThread message) refs
                (threadMergeMap, targetThreadId1) of
           (threadMergeMap', targetThreadId) \<Rightarrow>
             threadMergeMap'(threadId message \<mapsto> targetThreadId))"

definition merge_threads :: "ImapMessage list \<Rightarrow> (string \<rightharpoonup> string)" where
  "merge_threads messages =
     fold (merge_message (collect_thread_ids messages)) messages Map.empty"

text \<open>Third pass: the result \<open>Map\<close>, as its entries in insertion order.\<close>

fun push_message ::
  "string \<Rightarrow> ImapMessage \<Rightarrow> (string \<times> ImapMessage list) list \<Rightarrow> (string \<times> ImapMessage list) list" where
  "push_message tid message [] = [(tid, [message])]"
| "push_message tid message ((k, ms) # rest) =
     (if k = tid then (k, ms @ [message]) # rest else (k, ms) # push_message tid message rest)"

definition group_by_final_id ::
  "(string \<rightharpoonup> string) \<Rightarrow> ImapMessage list \<Rightarrow> (string \<times> ImapMessage list) list" where
  "group_by_final_id threadMergeMap messages =
     fold (\<lambda>message threads.
             push_message (get_or_self threadMergeMap (threadId message)) message threads)
          messages []"

definition groupMessagesIntoThreads :: "ImapMessage list \<Rightarrow> (string \<times> ImapMessage list) list" where
  "groupMessagesIntoThreads messages =
     map (\<lambda>(tid, threadMessages). (tid, sort_key date threadMessages))
       (group_by_final_id (merge_threads messages) messages)"

text \<open>Message \<open>a\<close> points at message \<open>b\<close>: its In-Reply-To or one of its References is
  the message id of \<open>b\<close>.\<close>

definition points_at :: "ImapMessage \<Rightarrow> ImapMessage \<Rightarrow> bool" where
  "points_at a b \<longleftrightarrow>
     inReplyTo a = Some (messageId b) \<or>
     messageId b \<in> set (case references a of None \<Rightarrow> [] | Some rs \<Rightarrow> rs)"

text \<open>The thread ids under which a message is listed in a result.\<close>

definition listed_under :: "(string \<times> ImapMessage list) list \<Rightarrow> ImapMessage \<Rightarrow> string list" where
  "listed_under threads message = map fst (filter (\<lambda>(tid, ms). message \<in> set ms) threads)"

text \<open>
  A conversation of four messages, newest first, each a reply to the one before it in
  time. The thread ids are the ones \<open>generateThreadId\<close> gives: the hash of the message
  replied to (of the message's own id for the first message), written \<open>thread_\<close> and the
  id hashed.
\<close>

definition mail_d :: ImapMessage where
  "mail_d = \<lparr> uid = 1, messageId = ''<d@x>'', threadId = ''thread_d'', subject = ''Plan'',
              date = 1000, inReplyTo = None, references = Some [] \<rparr>"

definition mail_c :: ImapMessage where
  "mail_c = \<lparr> uid = 2, messageId = ''<c@x>'', threadId = ''thread_d'', subject = ''Re: Plan'',
              date = 2000, inReplyTo = Some ''<d@x>'', references = Some [] \<rparr>"

definition mail_b :: ImapMessage where
  "mail_b = \<lparr> uid = 3, messageId = ''<b@x>'', threadId = ''thread_c'', subject = ''Re: Plan'',
              date = 3000, inReplyTo = Some ''<c@x>'', references = Some [] \<rparr>"

definition mail_a :: ImapMessage where
  "mail_a = \<lparr> uid = 4, messageId = ''<a@x>'', threadId = ''thread_b'', subject = ''Re: Plan'',
              date = 4000, inReplyTo = Some ''<b@x>'', references = Some [] \<rparr>"

definition reply_chain :: "ImapMessage list" where
  "reply_chain = [mail_a, mail_b, mail_c, mail_d]"


section \<open>Poll engine: pollFastmailAccount (fastmail/poll-sync.ts)\<close>

text \<open>
  The row \<open>prisma.emailAccount.findUnique\<close> selects, with the fields the function reads:
  \<open>tokens\<close> is the related \<open>account\<close> row, \<open>rules\<close> the enabled rules (their ids),
  \<open>premium_tier\<close> is \<open>user.premium?.tier\<close>. Times are in milliseconds.
\<close>

record account_tokens =
  provider :: string
  access_token :: "string option"
  refresh_token :: "string option"
  expires_at :: "int option"

record poll_account =
  account_id :: string
  email :: string
  lastSyncedHistoryId :: "string option"
  lastPolledAt :: "int option"
  tokens :: "account_tokens option"
  rules :: "string list"
  premium_tier :: "string option"
  aiApiKey :: "string option"

record email_changes =
  created :: "string list"
  updated :: "string list"
  changes_newState :: string
  hasMoreChanges :: bool

datatype poll_status = Success | Failed | Skipped | NoChanges

text \<open>\<open>PollSyncResult\<close>; its status \<open>"error"\<close> is \<open>Failed\<close> here.\<close>

record PollSyncResult =
  result_emailAccountId :: string
  result_email :: string
  status :: poll_status
  processedCount :: "nat option"
  newState :: "string option"
  error_message :: "string option"

text \<open>
  What is outside the function: the database (\<open>find_account\<close> gives \<open>Inl\<close> when the query
  throws, \<open>update_fails\<close> says whether the update throws), the clock, \<open>hasAiAccess\<close> of
  utils/premium (a parameter: its code is not part of these sources), the provider
  (\<open>create_provider_fails\<close>, \<open>get_email_changes\<close>) and the rule engine
  (\<open>process_history_item\<close> is \<open>False\<close> for a message on which it throws).
\<close>

record poll_env =
  find_account :: "string \<Rightarrow> string + poll_account option"
  date_now :: int
  date_at_update :: int
  has_ai_access :: "string option \<Rightarrow> string option \<Rightarrow> bool"
  create_provider_fails :: "string option"
  get_email_changes :: "string option \<Rightarrow> string + email_changes"
  process_history_item :: "string \<Rightarrow> bool"
  update_fails :: "string option"

datatype poll_effect = ProcessHistoryItem string | UpdateAccount string int string

definition early_result :: "string \<Rightarrow> string \<Rightarrow> poll_status \<Rightarrow> string \<Rightarrow> PollSyncResult" where
  "early_result eid mail st msg =
     \<lparr> result_emailAccountId = eid, result_email = mail, status = st,
       processedCount = None, newState = None, error_message = Some msg \<rparr>"

text \<open>The \<open>catch\<close> around the whole body.\<close>

definition caught :: "string \<Rightarrow> string \<Rightarrow> PollSyncResult" where
  "caught eid msg = early_result eid [] Failed msg"

definition recently_polled :: "poll_env \<Rightarrow> poll_account \<Rightarrow> bool" where
  "recently_polled env a =
     (case lastPolledAt a of
        None \<Rightarrow> False
      | Some t \<Rightarrow> date_now env - t < 2 * 60 * 1000)"

definition is_fastmail :: "poll_account \<Rightarrow> bool" where
  "is_fastmail a = (case tokens a of None \<Rightarrow> False | Some t \<Rightarrow> provider t = ''fastmail'')"

definition has_access_token :: "poll_account \<Rightarrow> bool" where
  "has_access_token a = (case tokens a of None \<Rightarrow> False | Some t \<Rightarrow> truthy (access_token t))"

definition tier_or_null :: "poll_account \<Rightarrow> string option" where
  "tier_or_null a = (if truthy (premium_tier a) then premium_tier a else None)"

text \<open>The part of the body after the provider has been created.\<close>

definition poll_changes ::
  "poll_env \<Rightarrow> string \<Rightarrow> poll_account \<Rightarrow> PollSyncResult \<times> poll_effect list" where
  "poll_changes env eid a =
     (case get_email_changes env (lastSyncedHistoryId a) of
        Inl msg \<Rightarrow> (caught eid msg, [])
      | Inr changes \<Rightarrow>
          if created changes = [] \<and> updated changes = [] then
            (case update_fails env of
               Some msg \<Rightarrow> (caught eid msg, [])
             | None \<Rightarrow>
                 (\<lparr> result_emailAccountId = eid, result_email = email a, status = NoChanges,
                    processedCount = None, newState = Some (changes_newState changes),
                    error_message = None \<rparr>,
                  [UpdateAccount eid (date_at_update env) (changes_newState changes)]))
          else
            (let processed = map ProcessHistoryItem (created changes);
                 count = length (filter (process_history_item env) (created changes))
             in case update_fails env of
                  Some msg \<Rightarrow> (caught eid msg, processed)
                | None \<Rightarrow>
                    (\<lparr> result_emailAccountId = eid, result_email = email a, status = Success,
                       processedCount = Some count, newState = Some (changes_newState changes),
                       error_message = None \<rparr>,
                     processed @ [UpdateAccount eid (date_at_update env) (changes_newState changes)])))"

definition pollFastmailAccount ::
  "poll_env \<Rightarrow> string \<Rightarrow> bool \<Rightarrow> PollSyncResult \<times> poll_effect list" where
  "pollFastmailAccount env eid forceSync =
     (case find_account env eid of
        Inl msg \<Rightarrow> (caught eid msg, [])
      | Inr None \<Rightarrow> (early_result eid [] Failed ''Account not found'', [])
      | Inr (Some a) \<Rightarrow>
          if \<not> is_fastmail a then
            (early_result eid (email a) Skipped ''Not a Fastmail account'', [])
          else if \<not> forceSync \<and> recently_polled env a then
            (early_result eid (email a) Skipped ''Recently polled'', [])
          else if \<not> has_ai_access env (tier_or_null a) (aiApiKey a) then
            (early_result eid (email a) Skipped ''No AI access'', [])
          else if \<not> length (rules a) > 0 then
            (early_result eid (email a) Skipped ''No rules enabled'', [])
          else if \<not> has_access_token a then
            (early_result eid (email a) Failed ''Missing authentication tokens'', [])
          else
            (case create_provider_fails env of
               Some msg \<Rightarrow> (caught eid msg, [])
             | None \<Rightarrow> poll_changes env eid a))"

text \<open>An account with a paid plan and one rule whose access token is missing, and a
  world in which everything else works.\<close>

definition account_without_token :: poll_account where
  "account_without_token =
     \<lparr> account_id = ''acct1'', email = ''user@fastmail.com'', lastSyncedHistoryId = Some ''s0'',
       lastPolledAt = None,
       tokens = Some \<lparr> provider = ''fastmail'', access_token = None,
                       refresh_token = None, expires_at = None \<rparr>,
       rules = [''rule1''], premium_tier = Some ''BUSINESS_MONTHLY'', aiApiKey = None \<rparr>"

definition account_without_rules :: poll_account where
  "account_without_rules =
     \<lparr> account_id = ''acct2'', email = ''other@fastmail.com'', lastSyncedHistoryId = Some ''s0'',
       lastPolledAt = None,
       tokens = Some \<lparr> provider = ''fastmail'', access_token = Some ''tok'',
                       refresh_token = None, expires_at = None \<rparr>,
       rules = [], premium_tier = Some ''BUSINESS_MONTHLY'', aiApiKey = None \<rparr>"

definition example_env :: poll_env where
  "example_env =
     \<lparr> find_account = (\<lambda>i. if i = ''acct1'' then Inr (Some account_without_token)
                             else if i = ''acct2'' then Inr (Some account_without_rules)
                             else Inr None),
       date_now = 1000000, date_at_update = 1000001,
       has_ai_access = (\<lambda>tier key. tier \<noteq> None \<or> key \<noteq> None),
       create_provider_fails = None,
       get_email_changes = (\<lambda>since. Inr \<lparr> created = [], updated = [],
                                          changes_newState = ''s1'', hasMoreChanges = False \<rparr>),
       process_history_item = (\<lambda>m. True),
       update_fails = None \<rparr>"


section \<open>Account manager (account-manager.ts)\<close>

text \<open>
  \<open>account_row\<close> is a row of \<open>getFastmailAccounts\<close> (the query returns Fastmail accounts
  only). A \<open>JMAPSession\<close> carries what \<open>addConnection\<close> reads of the session document:
  \<open>primaryAccounts\<close> is \<open>None\<close> when the document has no such property (reading it
  throws, which the \<open>try\<close> in \<open>addConnection\<close> catches).
  Client objects live in a heap, the list \<open>clients\<close>; a \<open>ManagedAccount\<close> refers to its
  client by its index there, so a client that the map no longer refers to still exists.
  \<open>connections\<close> is the \<open>Map\<close>, as its entries in insertion order.
  \<open>handleStateChange\<close>, \<open>handleTokenRefresh\<close> and \<open>getStats\<close> are left out: they add and
  remove no entry and construct and close no client.
\<close>

record account_row =
  row_id :: string
  row_email :: string
  row_account :: "account_tokens option"

record JMAPSession =
  session_eventSourceUrl :: string
  primaryAccounts :: "(string \<times> string) list option"

record ManagedAccount =
  managed_emailAccountId :: string
  managed_email :: string
  managed_client :: nat
  managed_accessToken :: string
  managed_refreshToken :: "string option"
  managed_expiresAt :: "int option"

text \<open>
  An invocation of \<open>refreshAccounts\<close> that is suspended at an \<open>await\<close>: waiting for the
  account list, or inside \<open>addConnection\<close> waiting for the JMAP session of one account,
  with the snapshot \<open>currentIds\<close> and the accounts still to visit. The flag says that
  the invocation is the initial load of \<open>start()\<close>, which arms the periodic timer when
  the load is over.
\<close>

datatype task =
    AwaitAccounts bool
  | AwaitSession bool "string list" account_row "account_row list"
  | Finished

record manager =
  connections :: "(string \<times> ManagedAccount) list"
  clients :: "client list"
  refreshInterval :: bool
  running :: bool
  tasks :: "task list"

definition new_manager :: manager where
  "new_manager =
     \<lparr> connections = [], clients = [], refreshInterval = False, running = False, tasks = [] \<rparr>"

definition close_client :: "nat \<Rightarrow> manager \<Rightarrow> manager" where
  "close_client r s = s\<lparr> clients := (clients s)[r := close (clients s ! r)] \<rparr>"

text \<open>The first loop of \<open>refreshAccounts\<close>, over \<open>currentIds\<close>.\<close>

definition remove_connection :: "string list \<Rightarrow> string \<Rightarrow> manager \<Rightarrow> manager" where
  "remove_connection newIds i s =
     (if i \<in> set newIds then s
      else
        let s1 = (case map_of (connections s) i of
                    Some managed \<Rightarrow> close_client (managed_client managed) s
                  | None \<Rightarrow> s)
        in s1\<lparr> connections := AList.delete i (connections s1) \<rparr>)"

definition remove_stale :: "string list \<Rightarrow> string list \<Rightarrow> manager \<Rightarrow> manager" where
  "remove_stale newIds currentIds s = fold (remove_connection newIds) currentIds s"

text \<open>\<open>addConnection\<close> up to its \<open>await\<close>: the access token to ask the session with, or
  \<open>None\<close> when it returns at once.\<close>

definition addConnection_token :: "account_row \<Rightarrow> string option" where
  "addConnection_token row =
     (case row_account row of
        None \<Rightarrow> None
      | Some t \<Rightarrow> if truthy (access_token t) then access_token t else None)"

text \<open>\<open>addConnection\<close> after its \<open>await\<close>, given what \<open>getJMAPSession\<close> returned.\<close>

definition addConnection_resume ::
  "account_row \<Rightarrow> string \<Rightarrow> JMAPSession option \<Rightarrow> manager \<Rightarrow> manager" where
  "addConnection_resume row token session s =
     (case session of
        None \<Rightarrow> s
      | Some sess \<Rightarrow>
          (case primaryAccounts sess of
             None \<Rightarrow> s
           | Some primary \<Rightarrow>
               let accountId' = map_of primary ''urn:ietf:params:jmap:mail'' in
               if \<not> truthy accountId' then s
               else
                 let c = new_client
                           \<lparr> eventSourceUrl = session_eventSourceUrl sess, accessToken = token,
                             accountId = the accountId', emailAccountId = row_id row,
                             onError = True, onConnected = True, onDisconnected = True \<rparr>;
                     r = length (clients s);
                     managed = \<lparr> managed_emailAccountId = row_id row,
                                 managed_email = row_email row,
                                 managed_client = r,
                                 managed_accessToken = token,
                                 managed_refreshToken =
                                   (case row_account row of None \<Rightarrow> None | Some t \<Rightarrow> refresh_token t),
                                 managed_expiresAt =
                                   (case row_account row of None \<Rightarrow> None | Some t \<Rightarrow> expires_at t) \<rparr>
                 in s\<lparr> clients := clients s @ [connect c],
                       connections := AList.update (row_id row) managed (connections s) \<rparr>))"

definition addConnection :: "account_row \<Rightarrow> JMAPSession option \<Rightarrow> manager \<Rightarrow> manager" where
  "addConnection row session s =
     (case addConnection_token row of
        None \<Rightarrow> s
      | Some token \<Rightarrow> addConnection_resume row token session s)"

subsection \<open>One reconciliation cycle, run without interruption\<close>

text \<open>The second loop of \<open>refreshAccounts\<close>; \<open>sessions\<close> says what \<open>getJMAPSession\<close> returns
  for each account.\<close>

fun add_new ::
  "(account_row \<Rightarrow> JMAPSession option) \<Rightarrow> string list \<Rightarrow> account_row list \<Rightarrow> manager \<Rightarrow> manager" where
  "add_new sessions currentIds [] s = s"
| "add_new sessions currentIds (row # rest) s =
     add_new sessions currentIds rest
       (if row_id row \<notin> set currentIds then addConnection row (sessions row) s else s)"

text \<open>\<open>refreshAccounts\<close>; the first argument is what \<open>getFastmailAccounts\<close> gives, \<open>Inl\<close>
  when it throws (the \<open>catch\<close> logs and the cycle changes nothing).\<close>

definition refreshAccounts ::
  "string + account_row list \<Rightarrow> (account_row \<Rightarrow> JMAPSession option) \<Rightarrow> manager \<Rightarrow> manager" where
  "refreshAccounts fetched sessions s =
     (case fetched of
        Inl err \<Rightarrow> s
      | Inr accounts \<Rightarrow>
          let currentIds = map fst (connections s);
              newIds = map row_id accounts
          in add_new sessions currentIds accounts (remove_stale newIds currentIds s))"

subsection \<open>Interleaved execution\<close>

text \<open>
  JavaScript runs one piece of code at a time and switches only at an \<open>await\<close>. The
  events of the manager are the calls \<open>start()\<close> and \<open>stop()\<close>, a tick of the periodic
  timer (which starts a new \<open>refreshAccounts\<close> whether or not an earlier one has
  finished), and the completion of what a suspended invocation is waiting for.
\<close>

text \<open>The second loop of a suspended invocation, continued up to its next \<open>await\<close>.\<close>

fun next_add :: "bool \<Rightarrow> string list \<Rightarrow> account_row list \<Rightarrow> task" where
  "next_add initial currentIds [] = Finished"
| "next_add initial currentIds (row # rest) =
     (if row_id row \<notin> set currentIds \<and> addConnection_token row \<noteq> None
      then AwaitSession initial currentIds row rest
      else next_add initial currentIds rest)"

text \<open>A suspended invocation carried to its end with nothing else happening in between;
  \<open>pending\<close> bounds the sessions it still has to wait for.\<close>

fun pending :: "task \<Rightarrow> nat" where
  "pending (AwaitSession initial currentIds row rest) = Suc (length rest)"
| "pending t = 0"

lemma pending_next_add: "pending (next_add initial cur rest) \<le> length rest"
  by (induction rest) auto

function complete_task :: "(account_row \<Rightarrow> JMAPSession option) \<Rightarrow> task \<Rightarrow> manager \<Rightarrow> manager" where
  "complete_task sessions (AwaitSession initial currentIds row rest) s =
     complete_task sessions (next_add initial currentIds rest) (addConnection row (sessions row) s)"
| "complete_task sessions (AwaitAccounts initial) s = s"
| "complete_task sessions Finished s = s"
  by pat_completeness auto
termination
  by (relation "measure (\<lambda>(sessions, t, s). pending t)")
     (auto simp: pending_next_add less_Suc_eq_le)

text \<open>Record where invocation \<open>i\<close> now stands; when the initial load of \<open>start()\<close> is
  over, \<open>start()\<close> goes on to \<open>setInterval\<close>.\<close>

definition set_task :: "nat \<Rightarrow> bool \<Rightarrow> task \<Rightarrow> manager \<Rightarrow> manager" where
  "set_task i initial t s =
     (let s1 = s\<lparr> tasks := (tasks s)[i := t] \<rparr>
      in if t = Finished \<and> initial then s1\<lparr> refreshInterval := True \<rparr> else s1)"

definition stop :: "manager \<Rightarrow> manager" where
  "stop s =
     (let s1 = s\<lparr> running := False, refreshInterval := False \<rparr>;
          s2 = fold (\<lambda>(i, managed). close_client (managed_client managed)) (connections s1) s1
      in s2\<lparr> connections := [] \<rparr>)"

datatype manager_event =
    Start | Stop | Tick
  | AccountsLoaded nat "string + account_row list"
  | SessionLoaded nat "JMAPSession option"

fun manager_step :: "manager_event \<Rightarrow> manager \<Rightarrow> manager option" where
  "manager_step Start s =
     (if running s then Some s
      else Some (s\<lparr> running := True, tasks := tasks s @ [AwaitAccounts True] \<rparr>))"
| "manager_step Stop s = Some (stop s)"
| "manager_step Tick s =
     (if refreshInterval s then Some (s\<lparr> tasks := tasks s @ [AwaitAccounts False] \<rparr>) else None)"
| "manager_step (AccountsLoaded i fetched) s =
     (if i < length (tasks s) then
        (case tasks s ! i of
           AwaitAccounts initial \<Rightarrow>
             (case fetched of
                Inl err \<Rightarrow> Some (set_task i initial Finished s)
              | Inr accounts \<Rightarrow>
                  let currentIds = map fst (connections s);
                      newIds = map row_id accounts
                  in Some (set_task i initial (next_add initial currentIds accounts)
                             (remove_stale newIds currentIds s)))
         | _ \<Rightarrow> None)
      else None)"
| "manager_step (SessionLoaded i session) s =
     (if i < length (tasks s) then
        (case tasks s ! i of
           AwaitSession initial currentIds row rest \<Rightarrow>
             Some (set_task i initial (next_add initial currentIds rest)
                     (addConnection row session s))
         | _ \<Rightarrow> None)
      else None)"

fun manager_run :: "manager_event list \<Rightarrow> manager \<Rightarrow> manager option" where
  "manager_run [] s = Some s"
| "manager_run (e # es) s =
     (case manager_step e s of None \<Rightarrow> None | Some s' \<Rightarrow> manager_run es s')"

text \<open>The clients of an account that are live: constructed for that account, not
  closed, and holding an EventSource.\<close>

definition live_clients :: "manager \<Rightarrow> string \<Rightarrow> nat list" where
  "live_clients s i =
     filter (\<lambda>r. emailAccountId (options (clients s ! r)) = i \<and>
                 \<not> closed (clients s ! r) \<and> eventSource (clients s ! r) \<noteq> None)
       [0..<length (clients s)]"

text \<open>What holds of the map and the heap in every state the manager reaches: keys are
  distinct, every entry's client exists, and no two entries share a client.\<close>

definition manager_wf :: "manager \<Rightarrow> bool" where
  "manager_wf s \<longleftrightarrow>
     distinct (map fst (connections s)) \<and>
     (\<forall>k m. map_of (connections s) k = Some m \<longrightarrow> managed_client m < length (clients s)) \<and>
     (\<forall>k k' m m'. map_of (connections s) k = Some m \<and> map_of (connections s) k' = Some m' \<and>
        managed_client m = managed_client m' \<longrightarrow> k = k')"

text \<open>An account, its session, and a run in which two periodic refreshes overlap: the
  second tick comes while the first refresh is still waiting for the account list.\<close>

definition row_a :: account_row where
  "row_a = \<lparr> row_id = ''acct1'', row_email = ''user@fastmail.com'',
             row_account = Some \<lparr> provider = ''fastmail'', access_token = Some ''tok1'',
                                  refresh_token = Some ''ref1'', expires_at = None \<rparr> \<rparr>"

definition row_b :: account_row where
  "row_b = \<lparr> row_id = ''acct2'', row_email = ''other@fastmail.com'',
             row_account = Some \<lparr> provider = ''fastmail'', access_token = Some ''tok2'',
                                  refresh_token = None, expires_at = None \<rparr> \<rparr>"

definition session_a :: JMAPSession where
  "session_a = \<lparr> session_eventSourceUrl = ''https://api.fastmail.com/jmap/event/'',
                 primaryAccounts = Some [(''urn:ietf:params:jmap:mail'', ''u1'')] \<rparr>"

definition overlapping_refreshes :: "manager_event list" where
  "overlapping_refreshes =
     [Start, AccountsLoaded 0 (Inr []),
      Tick, Tick,
      AccountsLoaded 1 (Inr [row_a]), AccountsLoaded 2 (Inr [row_a]),
      SessionLoaded 1 (Some session_a), SessionLoaded 2 (Some session_a)]"

definition one_managed :: "manager_event list" where
  "one_managed = [Start, AccountsLoaded 0 (Inr [row_a]), SessionLoaded 0 (Some session_a)]"

text \<open>A suspended invocation only ever waits for the session of an account that was not
  in its snapshot.\<close>

fun task_ok :: "task \<Rightarrow> bool" where
  "task_ok (AwaitSession initial currentIds row rest) = (row_id row \<notin> set currentIds)"
| "task_ok t = True"

section \<open>Properties of the push client\<close>

lemma scheduled_of_append: "scheduled_of (xs @ ys) = scheduled_of xs @ scheduled_of ys"
  by (induction xs rule: scheduled_of.induct) auto

lemma opened_of_append: "opened_of (xs @ ys) = opened_of xs + opened_of ys"
  by (induction xs rule: opened_of.induct) auto

lemma handleDisconnect_schedules:
  assumes "\<not> closed c" "reconnectAttempts c < 10"
  shows "trace (handleDisconnect c) =
           trace c @ (if onDisconnected (options c) then [CallOnDisconnected (emailAccountId (options c))] else [])
             @ [SetTimeout (nextTimer c) (backoff_delay (reconnectAttempts c + 1))]"
    and "reconnectAttempts (handleDisconnect c) = reconnectAttempts c + 1"
    and "reconnectTimeout (handleDisconnect c) = Some (nextTimer c)"
    and "timers (handleDisconnect c) = timers c @ [nextTimer c]"
  using assms
  by (auto simp: handleDisconnect_def emit_def Let_def maxReconnectAttempts_def
      baseReconnectDelay_def maxReconnectDelay_def backoff_delay_def)

lemma handleDisconnect_cap:
  assumes "\<not> closed c" "reconnectAttempts c \<ge> 10"
  shows "scheduled (handleDisconnect c) = scheduled c"
    and "timers (handleDisconnect c) = timers c"
    and "opened (handleDisconnect c) = opened c"
    and "onError (options c) \<Longrightarrow> last (trace (handleDisconnect c)) = CallOnError (emailAccountId (options c)) ''Max reconnect attempts reached''"
  using assms
  by (auto simp: handleDisconnect_def emit_def Let_def maxReconnectAttempts_def scheduled_def opened_def
      scheduled_of_append opened_of_append)

lemma handleDisconnect_closed:
  assumes "closed c"
  shows "scheduled (handleDisconnect c) = scheduled c"
    and "timers (handleDisconnect c) = timers c"
    and "opened (handleDisconnect c) = opened c"
    and "closed (handleDisconnect c)"
  using assms
  by (auto simp: handleDisconnect_def emit_def Let_def scheduled_def opened_def
      scheduled_of_append opened_of_append)

lemma disconnect_props:
  "scheduled (disconnect c) = scheduled c"
  "opened (disconnect c) = opened c"
  "closed (disconnect c) = closed c"
  "reconnectAttempts (disconnect c) = reconnectAttempts c"
  "eventSource (disconnect c) = None"
  "reconnectTimeout (disconnect c) = None"
  "options (disconnect c) = options c"
  by (auto simp: disconnect_def emit_def Let_def scheduled_def opened_def
      scheduled_of_append opened_of_append split: option.splits)

lemma sched_upd:
  "scheduled (c\<lparr>closed := b\<rparr>) = scheduled c"
  "opened (c\<lparr>closed := b\<rparr>) = opened c"
  "scheduled (c\<lparr>options := opt\<rparr>) = scheduled c"
  "opened (c\<lparr>options := opt\<rparr>) = opened c"
  "scheduled (c\<lparr>timers := ts\<rparr>) = scheduled c"
  "opened (c\<lparr>timers := ts\<rparr>) = opened c"
  "scheduled (c\<lparr>eventSource := ev\<rparr>) = scheduled c"
  "opened (c\<lparr>eventSource := ev\<rparr>) = opened c"
  "scheduled (c\<lparr>reconnectAttempts := n\<rparr>) = scheduled c"
  "opened (c\<lparr>reconnectAttempts := n\<rparr>) = opened c"
  by (simp_all add: scheduled_def opened_def)

lemma closed_step:
  assumes "closed c" "step e c = Some c'"
  shows "closed c' \<and> scheduled c' = scheduled c \<and> opened c' = opened c"
proof (cases e)
  case Connect with assms show ?thesis by (auto simp: connect_def)
next
  case Disconnect with assms show ?thesis by (auto simp: disconnect_props)
next
  case Close with assms show ?thesis by (auto simp: close_def disconnect_props sched_upd)
next
  case (UpdateAccessToken t)
  with assms show ?thesis
    by (auto simp: updateAccessToken_def Let_def connect_def disconnect_props sched_upd)
next
  case EsOpen
  with assms show ?thesis
    by (auto simp: onopen_def Let_def emit_def scheduled_def opened_def scheduled_of_append opened_of_append split: if_splits)
next
  case (EsError rs)
  with assms show ?thesis
    by (auto simp: onerror_def Let_def handleDisconnect_closed sched_upd split: if_splits)
next
  case (TimerFired h)
  with assms show ?thesis
    by (auto simp: timer_fired_def connect_def sched_upd split: if_splits)
qed

lemma closed_run:
  "closed c \<Longrightarrow> run es c = Some c' \<Longrightarrow> closed c' \<and> scheduled c' = scheduled c \<and> opened c' = opened c"
proof (induction es arbitrary: c)
  case Nil then show ?case by simp
next
  case (Cons e es)
  then obtain c1 where s: "step e c = Some c1" and r: "run es c1 = Some c'"
    by (auto split: option.splits)
  from closed_step[OF Cons.prems(1) s] Cons.IH[OF _ r] show ?case by auto
qed

lemma sched_emit:
  "scheduled (emit e c) = scheduled c @ scheduled_of [e]"
  "opened (emit e c) = opened c + opened_of [e]"
  "closed (emit e c) = closed c"
  "reconnectAttempts (emit e c) = reconnectAttempts c"
  "options (emit e c) = options c"
  "eventSource (emit e c) = eventSource c"
  "timers (emit e c) = timers c"
  "reconnectTimeout (emit e c) = reconnectTimeout c"
  by (simp_all add: emit_def scheduled_def opened_def scheduled_of_append opened_of_append)

lemma connect_props:
  "scheduled (connect c) = scheduled c"
  "closed (connect c) = closed c"
  "reconnectAttempts (connect c) = reconnectAttempts c"
  "options (connect c) = options c"
  "eventSource (connect c) \<noteq> Some OPEN \<or> eventSource (connect c) = eventSource c"
  by (auto simp: connect_def Let_def disconnect_props sched_upd sched_emit)

lemma backoff_inv_handleDisconnect:
  assumes "backoff_inv c" "eventSource c = Some CLOSED"
  shows "backoff_inv (handleDisconnect c)"
proof -
  have es: "eventSource (handleDisconnect c) = eventSource c"
    by (simp add: handleDisconnect_def Let_def emit_def)
  show ?thesis
  proof (cases "closed c")
    case True
    then have "reconnectAttempts (handleDisconnect c) = reconnectAttempts c"
      by (simp add: handleDisconnect_def Let_def emit_def)
    with assms(1) es handleDisconnect_closed(1)[OF True] show ?thesis
      by (simp only: backoff_inv_def simp_thms)
  next
    case False
    show ?thesis
    proof (cases "reconnectAttempts c < 10")
      case True
      have "scheduled (handleDisconnect c) = scheduled c @ [backoff_delay (reconnectAttempts c + 1)]"
        using handleDisconnect_schedules(1)[OF False True]
        by (simp add: scheduled_def scheduled_of_append)
      with True assms es handleDisconnect_schedules(2)[OF False True] show ?thesis
        by (simp add: backoff_inv_def)
    next
      case ge: False
      then have "reconnectAttempts (handleDisconnect c) = reconnectAttempts c"
        using False by (simp add: handleDisconnect_def Let_def emit_def maxReconnectAttempts_def)
      moreover from ge have "reconnectAttempts c \<ge> 10" by simp
      note handleDisconnect_cap(1)[OF False this]
      ultimately show ?thesis using assms(1) es
        by (simp only: backoff_inv_def simp_thms)
    qed
  qed
qed

lemma backoff_inv_step:
  assumes "backoff_inv c" "e \<noteq> EsOpen" "step e c = Some c'"
  shows "backoff_inv c'"
proof (cases e)
  case Connect
  with assms connect_props(5)[of c] show ?thesis
    by (auto simp: backoff_inv_def connect_props)
next
  case Disconnect with assms show ?thesis by (auto simp: backoff_inv_def disconnect_props)
next
  case Close with assms show ?thesis
    by (auto simp: backoff_inv_def close_def disconnect_props sched_upd)
next
  case (UpdateAccessToken t)
  with assms show ?thesis
    by (auto simp: backoff_inv_def updateAccessToken_def isConnected_def Let_def disconnect_props sched_upd)
next
  case EsOpen with assms show ?thesis by simp
next
  case (EsError rs)
  show ?thesis
  proof (cases "rs = CLOSED")
    case True
    have "backoff_inv (c\<lparr>eventSource := Some CLOSED\<rparr>)"
      using assms(1) by (simp add: backoff_inv_def sched_upd)
    from backoff_inv_handleDisconnect[OF this] True EsError assms show ?thesis
      by (auto simp: onerror_def Let_def split: if_splits)
  next
    case False
    with EsError assms show ?thesis
      by (auto simp: onerror_def Let_def backoff_inv_def sched_upd split: if_splits)
  qed
next
  case (TimerFired h)
  have "backoff_inv (c\<lparr>timers := removeAll h (timers c)\<rparr>)"
    using assms(1) by (simp add: backoff_inv_def sched_upd)
  with TimerFired assms connect_props(5)[of "c\<lparr>timers := removeAll h (timers c)\<rparr>"] show ?thesis
    by (auto simp: timer_fired_def backoff_inv_def connect_props split: if_splits)
qed

lemma backoff_inv_run:
  "backoff_inv c \<Longrightarrow> EsOpen \<notin> set es \<Longrightarrow> run es c = Some c' \<Longrightarrow> backoff_inv c'"
proof (induction es arbitrary: c)
  case Nil then show ?case by simp
next
  case (Cons e es)
  then obtain c1 where s: "step e c = Some c1" and r: "run es c1 = Some c'"
    by (auto split: option.splits)
  from Cons.prems(2) have ne: "e \<noteq> EsOpen" and rest: "EsOpen \<notin> set es" by auto
  from Cons.IH[OF backoff_inv_step[OF Cons.prems(1) ne s] rest r] show ?case .
qed

lemma backoff_inv_new: "backoff_inv (new_client opts)"
  by (simp add: backoff_inv_def new_client_def scheduled_def)

lemma removeAll_tracked: "set ts \<subseteq> set_option (Some h) \<Longrightarrow> removeAll h ts = []"
  by (induction ts) auto

lemma disconnect_timers: "timers_tracked c \<Longrightarrow> timers (disconnect c) = []"
  by (cases "reconnectTimeout c")
     (auto simp: timers_tracked_def disconnect_def emit_def Let_def removeAll_tracked split: option.splits)

lemma tracked_nil: "timers c = [] \<Longrightarrow> timers_tracked c"
  by (simp add: timers_tracked_def)

lemma connect_timers: "timers_tracked c \<Longrightarrow> timers (connect c) = [] \<or> connect c = c"
  by (auto simp: connect_def Let_def emit_def disconnect_timers timers_tracked_def)

lemma timers_tracked_step:
  assumes "timers_tracked c" "step e c = Some c'"
  shows "timers_tracked c'"
proof (cases e)
  case Connect
  with assms connect_timers[OF assms(1)] show ?thesis by (auto intro: tracked_nil)
next
  case Disconnect with assms show ?thesis by (auto intro: tracked_nil disconnect_timers)
next
  case Close
  have "timers_tracked (c\<lparr>closed := True\<rparr>)" using assms(1) by (simp add: timers_tracked_def)
  with Close assms show ?thesis by (auto simp: close_def intro: tracked_nil disconnect_timers)
next
  case (UpdateAccessToken t)
  have d: "timers (disconnect c) = []" by (rule disconnect_timers[OF assms(1)])
  let ?c2 = "(disconnect c)\<lparr>options := (options (disconnect c))\<lparr>accessToken := t\<rparr>\<rparr>"
  have t2: "timers_tracked ?c2" "timers_tracked (?c2\<lparr>reconnectAttempts := 0\<rparr>)"
    using d by (simp_all add: timers_tracked_def)
  from connect_timers[OF t2(2)] t2 UpdateAccessToken assms show ?thesis
    by (auto simp: updateAccessToken_def Let_def intro: tracked_nil)
next
  case EsOpen
  with assms show ?thesis
    by (auto simp: onopen_def Let_def emit_def timers_tracked_def split: if_splits)
next
  case (EsError rs)
  with assms have live: "timers c = []" by (auto simp: timers_tracked_def split: if_splits)
  show ?thesis
  proof (cases "rs = CLOSED")
    case True
    with EsError assms live show ?thesis
      by (auto simp: onerror_def Let_def handleDisconnect_def emit_def timers_tracked_def split: if_splits)
  next
    case False
    with EsError assms live show ?thesis
      by (auto simp: onerror_def Let_def timers_tracked_def split: if_splits)
  qed
next
  case (TimerFired h)
  with assms have "h \<in> set (timers c)" by (auto split: if_splits)
  with assms(1) have "removeAll h (timers c) = []"
    by (cases "reconnectTimeout c") (auto simp: timers_tracked_def intro!: removeAll_tracked)
  then have tr: "timers_tracked (c\<lparr>timers := removeAll h (timers c)\<rparr>)"
    by (simp add: timers_tracked_def)
  from connect_timers[OF tr] tr TimerFired assms show ?thesis
    by (auto simp: timer_fired_def split: if_splits intro: tracked_nil)
qed

lemma timers_tracked_run:
  "timers_tracked c \<Longrightarrow> run es c = Some c' \<Longrightarrow> timers_tracked c'"
proof (induction es arbitrary: c)
  case Nil then show ?case by simp
next
  case (Cons e es)
  then obtain c1 where s: "step e c = Some c1" and r: "run es c1 = Some c'"
    by (auto split: option.splits)
  from Cons.IH[OF timers_tracked_step[OF Cons.prems(1) s] r] show ?case .
qed

lemma timers_tracked_new: "timers_tracked (new_client opts)"
  by (simp add: timers_tracked_def new_client_def)

lemma handleDisconnect_trace_cap:
  assumes "\<not> closed c" "maxReconnectAttempts \<le> reconnectAttempts c"
  shows "trace (handleDisconnect c) =
           trace c @ (if onDisconnected (options c) then [CallOnDisconnected (emailAccountId (options c))] else [])
             @ (if onError (options c) then [CallOnError (emailAccountId (options c)) ''Max reconnect attempts reached''] else [])"
  using assms by (auto simp: handleDisconnect_def emit_def Let_def)

text \<open>
  Claim C3. \<open>handleDisconnect\<close> arms the \<open>N\<close>th reconnect (\<open>N\<close> is the attempt counter
  after the increment) with the delay \<open>min (1000 * 2 ^ (N - 1)) 300000\<close> ms; in every run
  of a new client in which no connection opens, the delays armed so far are exactly the
  policy's first \<open>reconnectAttempts\<close> values and the counter never exceeds 10; once the
  counter has reached 10 nothing is armed and the \<open>onError\<close> callback (when the caller
  supplied one) receives "Max reconnect attempts reached"; a closed client arms nothing;
  and after \<open>close()\<close> no run of events arms a timer or opens an EventSource.
\<close>

theorem handleDisconnect_backoff_policy:
  "(\<forall>c. \<not> closed c \<and> reconnectAttempts c < maxReconnectAttempts \<longrightarrow>
        scheduled (handleDisconnect c) = scheduled c @ [backoff_delay (reconnectAttempts c + 1)] \<and>
        reconnectAttempts (handleDisconnect c) = reconnectAttempts c + 1 \<and>
        reconnectTimeout (handleDisconnect c) = Some (nextTimer c) \<and>
        timers (handleDisconnect c) = timers c @ [nextTimer c])
   \<and> (\<forall>opts es c. EsOpen \<notin> set es \<and> run es (new_client opts) = Some c \<longrightarrow>
        scheduled c = map backoff_delay [1..<Suc (reconnectAttempts c)] \<and>
        reconnectAttempts c \<le> maxReconnectAttempts)
   \<and> (\<forall>c. \<not> closed c \<and> maxReconnectAttempts \<le> reconnectAttempts c \<longrightarrow>
        scheduled (handleDisconnect c) = scheduled c \<and>
        timers (handleDisconnect c) = timers c \<and>
        trace (handleDisconnect c) =
          trace c @ (if onDisconnected (options c) then [CallOnDisconnected (emailAccountId (options c))] else [])
            @ (if onError (options c)
               then [CallOnError (emailAccountId (options c)) ''Max reconnect attempts reached''] else []))
   \<and> (\<forall>c. closed c \<longrightarrow>
        scheduled (handleDisconnect c) = scheduled c \<and> timers (handleDisconnect c) = timers c)
   \<and> (\<forall>c es c'. run es (close c) = Some c' \<longrightarrow>
        closed c' \<and> scheduled c' = scheduled c \<and> opened c' = opened c)"
proof (intro conjI allI impI)
  fix c :: client assume h: "\<not> closed c \<and> reconnectAttempts c < maxReconnectAttempts"
  then have a: "\<not> closed c" and b: "reconnectAttempts c < 10"
    by (simp_all add: maxReconnectAttempts_def)
  show "scheduled (handleDisconnect c) = scheduled c @ [backoff_delay (reconnectAttempts c + 1)]"
    using handleDisconnect_schedules(1)[OF a b] by (simp add: scheduled_def scheduled_of_append)
  show "reconnectAttempts (handleDisconnect c) = reconnectAttempts c + 1"
    by (rule handleDisconnect_schedules(2)[OF a b])
  show "reconnectTimeout (handleDisconnect c) = Some (nextTimer c)"
    by (rule handleDisconnect_schedules(3)[OF a b])
  show "timers (handleDisconnect c) = timers c @ [nextTimer c]"
    by (rule handleDisconnect_schedules(4)[OF a b])
next
  fix opts es and c :: client
  assume h: "EsOpen \<notin> set es \<and> run es (new_client opts) = Some c"
  from backoff_inv_run[OF backoff_inv_new, of es opts c] h have inv: "backoff_inv c" by simp
  then show "scheduled c = map backoff_delay [1..<Suc (reconnectAttempts c)]"
    by (simp only: backoff_inv_def)
  from inv show "reconnectAttempts c \<le> maxReconnectAttempts"
    by (simp only: backoff_inv_def maxReconnectAttempts_def)
next
  fix c :: client assume h: "\<not> closed c \<and> maxReconnectAttempts \<le> reconnectAttempts c"
  then have a: "\<not> closed c" and b: "10 \<le> reconnectAttempts c"
    by (simp_all add: maxReconnectAttempts_def)
  show "scheduled (handleDisconnect c) = scheduled c" by (rule handleDisconnect_cap(1)[OF a b])
  show "timers (handleDisconnect c) = timers c" by (rule handleDisconnect_cap(2)[OF a b])
  show "trace (handleDisconnect c) =
          trace c @ (if onDisconnected (options c) then [CallOnDisconnected (emailAccountId (options c))] else [])
            @ (if onError (options c)
               then [CallOnError (emailAccountId (options c)) ''Max reconnect attempts reached''] else [])"
    using h by (intro handleDisconnect_trace_cap) simp_all
next
  fix c :: client assume "closed c"
  then show "scheduled (handleDisconnect c) = scheduled c" "timers (handleDisconnect c) = timers c"
    by (simp_all add: handleDisconnect_closed)
next
  fix c :: client and es c' assume r: "run es (close c) = Some c'"
  have cl: "closed (close c)" by (simp add: close_def disconnect_props)
  have eq: "scheduled (close c) = scheduled c" "opened (close c) = opened c"
    by (simp_all add: close_def disconnect_props sched_upd)
  from closed_run[OF cl r] eq
  show "closed c'" "scheduled c' = scheduled c" "opened c' = opened c" by simp_all
qed

lemma run_three_failures:
  "\<exists>c. run three_failures (new_client example_options) = Some c \<and> reconnectAttempts c = 3"
  by (simp add: three_failures_def new_client_def example_options_def connect_def onerror_def
      handleDisconnect_def timer_fired_def disconnect_def emit_def buildUrl_def Let_def
      maxReconnectAttempts_def baseReconnectDelay_def maxReconnectDelay_def)

text \<open>
  Three failed connection attempts in a row arm 1000, 2000 and 4000 ms; a client at the
  cap reports the error and arms nothing; a closed client stays closed and idle.
\<close>

theorem handleDisconnect_backoff_policy_witness:
  "EsOpen \<notin> set three_failures \<and>
   (\<exists>c. run three_failures (new_client example_options) = Some c \<and>
        scheduled c = [1000, 2000, 4000]) \<and>
   \<not> closed (new_client example_options) \<and>
   reconnectAttempts (new_client example_options) < maxReconnectAttempts \<and>
   scheduled (handleDisconnect (new_client example_options)) = [1000] \<and>
   \<not> closed exhausted_client \<and> maxReconnectAttempts \<le> reconnectAttempts exhausted_client \<and>
   scheduled (handleDisconnect exhausted_client) = [] \<and>
   trace (handleDisconnect exhausted_client) =
     [CallOnDisconnected ''acct1'', CallOnError ''acct1'' ''Max reconnect attempts reached''] \<and>
   closed (close (new_client example_options)) \<and>
   scheduled (handleDisconnect (close (new_client example_options))) = [] \<and>
   (\<exists>c'. run [Connect, UpdateAccessToken ''tok2'', Connect] (close (new_client example_options))
           = Some c' \<and> closed c' \<and> scheduled c' = [] \<and> opened c' = 0)"
proof -
  note pol = handleDisconnect_backoff_policy
  from run_three_failures obtain c
    where r: "run three_failures (new_client example_options) = Some c"
      and n: "reconnectAttempts c = 3" by blast
  have no: "EsOpen \<notin> set three_failures" by (simp add: three_failures_def)
  from pol no r
  have "scheduled c = map backoff_delay [1..<Suc (reconnectAttempts c)]" by blast
  with n have "scheduled c = [1000, 2000, 4000]"
    by (simp add: backoff_delay_def upt_rec numeral_3_eq_3)
  with no r have A: "EsOpen \<notin> set three_failures \<and>
      (\<exists>c. run three_failures (new_client example_options) = Some c \<and> scheduled c = [1000, 2000, 4000])"
    by blast
  have b: "\<not> closed (new_client example_options)"
    "reconnectAttempts (new_client example_options) < maxReconnectAttempts"
    "scheduled (new_client example_options) = []"
    "reconnectAttempts (new_client example_options) = 0"
    by (simp_all add: new_client_def maxReconnectAttempts_def scheduled_def)
  from pol b(1,2)
  have "scheduled (handleDisconnect (new_client example_options)) =
          scheduled (new_client example_options)
            @ [backoff_delay (reconnectAttempts (new_client example_options) + 1)]"
    by blast
  with b have B: "scheduled (handleDisconnect (new_client example_options)) = [1000]"
    by (simp add: backoff_delay_def)
  have x: "\<not> closed exhausted_client" "maxReconnectAttempts \<le> reconnectAttempts exhausted_client"
    "scheduled exhausted_client = []" "trace exhausted_client = []"
    "onDisconnected (options exhausted_client)" "onError (options exhausted_client)"
    "emailAccountId (options exhausted_client) = ''acct1''"
    by (simp_all add: exhausted_client_def new_client_def example_options_def
        maxReconnectAttempts_def scheduled_def)
  from pol x(1,2)
  have "scheduled (handleDisconnect exhausted_client) = scheduled exhausted_client \<and>
        trace (handleDisconnect exhausted_client) =
          trace exhausted_client
            @ (if onDisconnected (options exhausted_client)
               then [CallOnDisconnected (emailAccountId (options exhausted_client))] else [])
            @ (if onError (options exhausted_client)
               then [CallOnError (emailAccountId (options exhausted_client))
                       ''Max reconnect attempts reached''] else [])"
    by blast
  with x have C: "scheduled (handleDisconnect exhausted_client) = []"
    "trace (handleDisconnect exhausted_client) =
       [CallOnDisconnected ''acct1'', CallOnError ''acct1'' ''Max reconnect attempts reached'']"
    by simp_all
  have cl: "closed (close (new_client example_options))"
    "scheduled (close (new_client example_options)) = []"
    by (simp_all add: close_def disconnect_def new_client_def scheduled_def)
  from pol cl(1)
  have "scheduled (handleDisconnect (close (new_client example_options)))
          = scheduled (close (new_client example_options))" by blast
  with cl have D: "scheduled (handleDisconnect (close (new_client example_options))) = []" by simp
  obtain c' where r': "run [Connect, UpdateAccessToken ''tok2'', Connect]
                         (close (new_client example_options)) = Some c'"
    by simp
  from pol r' have "closed c' \<and> scheduled c' = scheduled (new_client example_options) \<and>
                    opened c' = opened (new_client example_options)" by blast
  then have E: "\<exists>c'. run [Connect, UpdateAccessToken ''tok2'', Connect]
                         (close (new_client example_options)) = Some c' \<and>
                  closed c' \<and> scheduled c' = [] \<and> opened c' = 0"
    using r' by (auto simp: new_client_def scheduled_def opened_def)
  from A B b(1,2) x(1,2) C cl(1) D E show ?thesis by blast
qed

text \<open>
  Claim C10. On a client that is not connected (whatever it has been through, a wait for
  a reconnect included), \<open>updateAccessToken\<close> stores the new token and leaves no timer
  pending and no EventSource; it opens nothing and arms nothing, keeps the attempt
  counter, and in the state it leaves no event of the client's own can happen (no timer
  is pending and there is no EventSource to report anything): only a call from outside
  gets it going again.
\<close>

theorem updateAccessToken_while_disconnected:
  assumes "run es (new_client opts) = Some c" and "\<not> isConnected c"
  shows "accessToken (options (updateAccessToken t c)) = t \<and>
         reconnectTimeout (updateAccessToken t c) = None \<and>
         timers (updateAccessToken t c) = [] \<and>
         eventSource (updateAccessToken t c) = None \<and>
         opened (updateAccessToken t c) = opened c \<and>
         scheduled (updateAccessToken t c) = scheduled c \<and>
         reconnectAttempts (updateAccessToken t c) = reconnectAttempts c \<and>
         closed (updateAccessToken t c) = closed c \<and>
         step EsOpen (updateAccessToken t c) = None \<and>
         (\<forall>rs. step (EsError rs) (updateAccessToken t c) = None) \<and>
         (\<forall>h. step (TimerFired h) (updateAccessToken t c) = None)"
proof -
  let ?c' = "updateAccessToken t c"
  have tr: "timers_tracked c"
    by (rule timers_tracked_run[OF timers_tracked_new assms(1)])
  have eq: "?c' = (disconnect c)\<lparr>options := (options (disconnect c))\<lparr>accessToken := t\<rparr>\<rparr>"
    using assms(2) by (simp add: updateAccessToken_def Let_def)
  have t0: "timers ?c' = []" using disconnect_timers[OF tr] by (simp add: eq)
  have e0: "eventSource ?c' = None" by (simp add: eq disconnect_props)
  show ?thesis
    using t0 e0 by (simp add: eq disconnect_props sched_upd)
qed

lemma run_waiting_for_backoff:
  "\<exists>c. run waiting_for_backoff (new_client example_options) = Some c \<and>
        \<not> isConnected c \<and> timers c = [0] \<and> reconnectTimeout c = Some 0 \<and> opened c = 1"
  by (simp add: waiting_for_backoff_def new_client_def example_options_def connect_def onerror_def
      handleDisconnect_def disconnect_def emit_def buildUrl_def Let_def isConnected_def opened_def
      maxReconnectAttempts_def baseReconnectDelay_def maxReconnectDelay_def)

text \<open>
  A client waiting out its first backoff delay gets a new token.
\<close>

theorem updateAccessToken_while_disconnected_witness:
  "\<exists>c. run waiting_for_backoff (new_client example_options) = Some c \<and> \<not> isConnected c \<and>
       timers c = [0] \<and>
       accessToken (options (updateAccessToken ''tok2'' c)) = ''tok2'' \<and>
       timers (updateAccessToken ''tok2'' c) = [] \<and>
       eventSource (updateAccessToken ''tok2'' c) = None \<and>
       opened (updateAccessToken ''tok2'' c) = 1"
proof -
  from run_waiting_for_backoff obtain c
    where r: "run waiting_for_backoff (new_client example_options) = Some c"
      and n: "\<not> isConnected c" and t: "timers c = [0]" and o: "opened c = 1" by blast
  from updateAccessToken_while_disconnected[OF r n, of "''tok2''"] r n t o
  show ?thesis by auto
qed

section \<open>Properties of the event dispatcher\<close>

lemma loop_done: "callWebhook_loop e n srv 4 tr = (False, tr)"
  by (simp add: callWebhook_loop.simps[of e n srv 4] MAX_RETRIES_def)

lemma loop_unfold:
  "attempt \<le> 3 \<Longrightarrow> callWebhook_loop e n srv attempt tr =
     (case srv attempt of
        NetworkError \<Rightarrow> callWebhook_loop e n srv (Suc attempt) (wait_before_retry attempt (tr @ [Fetch e n]))
      | Response st tok \<Rightarrow>
          if response_ok st then (True, tr @ [Fetch e n])
          else if 400 \<le> st \<and> st < 500 \<and> tok then (False, tr @ [Fetch e n])
          else callWebhook_loop e n srv (Suc attempt) (wait_before_retry attempt (tr @ [Fetch e n])))"
  by (subst callWebhook_loop.simps) (auto simp: MAX_RETRIES_def Let_def split: fetch_outcome.splits)

lemma loop_retried:
  "attempt \<le> 3 \<Longrightarrow> retried (srv attempt) \<Longrightarrow>
   callWebhook_loop e n srv attempt tr =
     callWebhook_loop e n srv (Suc attempt) (wait_before_retry attempt (tr @ [Fetch e n]))"
  by (cases "srv attempt") (auto simp: loop_unfold)

lemma loop_final:
  "attempt \<le> 3 \<Longrightarrow> srv attempt = Response st tok \<Longrightarrow> \<not> retried (srv attempt) \<Longrightarrow>
   callWebhook_loop e n srv attempt tr = (response_ok st, tr @ [Fetch e n])"
  by (auto simp: loop_unfold)

lemma fetches_append: "fetches (xs @ ys) = fetches xs + fetches ys"
  by (induction xs rule: fetches.induct) auto

lemma sleeps_append: "sleeps (xs @ ys) = sleeps xs @ sleeps ys"
  by (induction xs rule: sleeps.induct) auto

lemma retry_trace_step:
  "a < k \<Longrightarrow> retry_trace e n a k = [Fetch e n, Sleep (1000 * 2 ^ a)] @ retry_trace e n (Suc a) k"
  by (simp add: retry_trace_def upt_conv_Cons)

lemma retry_trace_same: "retry_trace e n k k = [Fetch e n]"
  by (simp add: retry_trace_def)

lemma loop_until_final:
  assumes "k \<le> 3" "srv k = Response st t" "\<not> retried (srv k)"
  shows "a \<le> k \<Longrightarrow> (\<forall>j. a \<le> j \<and> j < k \<longrightarrow> retried (srv j)) \<Longrightarrow>
         callWebhook_loop e n srv a tr = (response_ok st, tr @ retry_trace e n a k)"
proof (induction "k - a" arbitrary: a tr)
  case 0
  then have "a = k" by simp
  with assms show ?case by (simp add: loop_final retry_trace_same)
next
  case (Suc d)
  then have lt: "a < k" and r: "retried (srv a)" by auto
  with assms(1) have a3: "a \<le> 3" "a < 3" by auto
  have d: "d = k - Suc a" using Suc.hyps(2) by simp
  have nxt: "callWebhook_loop e n srv (Suc a) (tr @ [Fetch e n, Sleep (1000 * 2 ^ a)])
               = (response_ok st, (tr @ [Fetch e n, Sleep (1000 * 2 ^ a)]) @ retry_trace e n (Suc a) k)"
    using lt Suc.prems(2) by (intro Suc.hyps(1)[OF d]) auto
  show ?case
    using a3 nxt
    by (simp add: loop_retried[where attempt=a and srv=srv, OF a3(1) r] wait_before_retry_def MAX_RETRIES_def
        BASE_RETRY_DELAY_def retry_trace_step[OF lt])
qed

lemma loop_all_retried:
  "a \<le> 4 \<Longrightarrow> (\<forall>j. a \<le> j \<and> j \<le> 3 \<longrightarrow> retried (srv j)) \<Longrightarrow>
   callWebhook_loop e n srv a tr = (False, if a = 4 then tr else tr @ retry_trace e n a 3)"
proof (induction "4 - a" arbitrary: a tr)
  case 0
  then show ?case by (simp add: loop_done)
next
  case (Suc d)
  then have a3: "a \<le> 3" and r: "retried (srv a)" by auto
  have d: "d = 4 - Suc a" using Suc.hyps(2) by simp
  have nxt: "callWebhook_loop e n srv (Suc a) tr' =
               (False, if Suc a = 4 then tr' else tr' @ retry_trace e n (Suc a) 3)" for tr'
    using a3 Suc.prems(2) by (intro Suc.hyps(1)[OF d]) auto
  have step: "callWebhook_loop e n srv a tr =
      callWebhook_loop e n srv (Suc a) (wait_before_retry a (tr @ [Fetch e n]))"
    by (rule loop_retried[where attempt=a and srv=srv, OF a3 r])
  show ?case
  proof (cases "a = 3")
    case True
    have "wait_before_retry a (tr @ [Fetch e n]) = tr @ [Fetch e n]"
      using True by (simp add: wait_before_retry_def MAX_RETRIES_def)
    with True nxt[of "tr @ [Fetch e n]"] show ?thesis
      unfolding step by (simp add: retry_trace_same)
  next
    case False
    with a3 have lt: "a < 3" by simp
    then have "wait_before_retry a (tr @ [Fetch e n]) = tr @ [Fetch e n, Sleep (1000 * 2 ^ a)]"
      by (simp add: wait_before_retry_def MAX_RETRIES_def BASE_RETRY_DELAY_def)
    with lt nxt[of "tr @ [Fetch e n, Sleep (1000 * 2 ^ a)]"] show ?thesis
      unfolding step by (simp add: retry_trace_step[OF lt])
  qed
qed

lemma fetches_retry_trace: "a \<le> k \<Longrightarrow> fetches (retry_trace e n a k) = Suc (k - a)"
proof (induction "k - a" arbitrary: a)
  case 0 then show ?case by (simp add: retry_trace_same)
next
  case (Suc d)
  then have lt: "a < k" by simp
  from Suc have "fetches (retry_trace e n (Suc a) k) = Suc (k - Suc a)" by (intro Suc.hyps(1)) auto
  with lt show ?case by (simp add: retry_trace_step[OF lt])
qed

lemma sleeps_retry_trace: "a \<le> k \<Longrightarrow> sleeps (retry_trace e n a k) = map (\<lambda>j. 1000 * 2 ^ j) [a..<k]"
proof (induction "k - a" arbitrary: a)
  case 0 then show ?case by (simp add: retry_trace_same)
next
  case (Suc d)
  then have lt: "a < k" by simp
  from Suc have "sleeps (retry_trace e n (Suc a) k) = map (\<lambda>j. 1000 * 2 ^ j) [Suc a..<k]"
    by (intro Suc.hyps(1)) auto
  with lt show ?case by (simp add: retry_trace_step[OF lt] upt_conv_Cons)
qed

text \<open>Every call is one of the two cases.\<close>
lemma callWebhook_cases:
  obtains (final) k st t where "k \<le> 3" "\<forall>j<k. retried (srv j)" "srv k = Response st t"
      "\<not> retried (srv k)" "callWebhook e n srv = (response_ok st, retry_trace e n 0 k)"
  | (exhausted) "\<forall>j\<le>3. retried (srv j)" "callWebhook e n srv = (False, retry_trace e n 0 3)"
proof (cases "\<forall>j\<le>3. retried (srv j)")
  case True
  then have "callWebhook e n srv = (False, retry_trace e n 0 3)"
    using loop_all_retried[of 0 srv e n "[]"] by (simp add: callWebhook_def)
  with True show ?thesis by (rule exhausted)
next
  case False
  define k where "k = (LEAST j. \<not> retried (srv j))"
  from False obtain j0 where j0: "j0 \<le> 3" "\<not> retried (srv j0)" by auto
  then have nk: "\<not> retried (srv k)" unfolding k_def by (metis (mono_tags, lifting) LeastI)
  have kle: "k \<le> j0" unfolding k_def using j0(2) by (rule Least_le)
  have before: "\<forall>j<k. retried (srv j)" unfolding k_def using not_less_Least by blast
  from nk obtain st t where s: "srv k = Response st t" by (cases "srv k") auto
  from kle j0 have k3: "k \<le> 3" by simp
  have "callWebhook e n srv = (response_ok st, retry_trace e n 0 k)"
    using loop_until_final[where k=k and srv=srv and a=0 and e=e and n=n and tr="[]", OF k3 s nk] before by (simp add: callWebhook_def)
  with k3 before s nk show ?thesis by (rule final)
qed

lemma retry_trace_3:
  "retry_trace e n 0 3 = [Fetch e n, Sleep 1000, Fetch e n, Sleep 2000, Fetch e n, Sleep 4000, Fetch e n]"
  by (simp add: retry_trace_def upt_rec numeral_3_eq_3)

lemma callWebhook_final:
  assumes "k \<le> 3" "\<forall>j<k. retried (srv j)" "srv k = Response st t" "\<not> retried (srv k)"
  shows "callWebhook e n srv = (response_ok st, retry_trace e n 0 k)"
  using loop_until_final[where k=k and srv=srv and a=0 and e=e and n=n and tr="[]", OF assms(1,3,4)]
    assms(2) by (simp add: callWebhook_def)

lemma callWebhook_bounds:
  "fetches (snd (callWebhook e n srv)) \<le> 4 \<and>
   sleeps (snd (callWebhook e n srv)) =
     map (\<lambda>j. 1000 * 2 ^ j) [0..<fetches (snd (callWebhook e n srv)) - 1]"
proof (cases rule: callWebhook_cases[of srv e n])
  case (final k st t)
  then show ?thesis by (simp add: fetches_retry_trace sleeps_retry_trace)
next
  case exhausted
  then show ?thesis by (simp add: fetches_retry_trace sleeps_retry_trace)
qed

text \<open>
  What the loop does, case by case. A 4xx response whose body can be read ends the call
  with \<open>False\<close> at once (also when it follows retried attempts); a 2xx response ends it
  with \<open>True\<close>; a rejected \<open>fetch\<close>, a 5xx response and any other outcome the loop retries
  are followed by waits of 1000, 2000 and 4000 ms before attempts 2, 3 and 4; no call
  makes more than 4 requests; and three 500s followed by a 200 give \<open>True\<close> after the
  waits 1000, 2000, 4000.
\<close>

theorem callWebhook_retry_policy:
  "(\<forall>srv k st. k \<le> 3 \<and> (\<forall>j<k. retried (srv j)) \<and> srv k = Response st True \<and> 400 \<le> st \<and> st < 500 \<longrightarrow>
       callWebhook e n srv = (False, retry_trace e n 0 k))
   \<and> (\<forall>srv k st t. k \<le> 3 \<and> (\<forall>j<k. retried (srv j)) \<and> srv k = Response st t \<and> response_ok st \<longrightarrow>
       callWebhook e n srv = (True, retry_trace e n 0 k))
   \<and> (\<forall>srv. (\<forall>j\<le>3. retried (srv j)) \<longrightarrow> callWebhook e n srv = (False, retry_trace e n 0 3))
   \<and> retried NetworkError \<and> (\<forall>st t. 500 \<le> st \<longrightarrow> retried (Response st t))
   \<and> (\<forall>srv. fetches (snd (callWebhook e n srv)) \<le> 4 \<and>
           sleeps (snd (callWebhook e n srv)) =
             map (\<lambda>j. 1000 * 2 ^ j) [0..<fetches (snd (callWebhook e n srv)) - 1])
   \<and> callWebhook e n server_500x3_then_200 =
         (True, [Fetch e n, Sleep 1000, Fetch e n, Sleep 2000, Fetch e n, Sleep 4000, Fetch e n])"
proof (intro conjI allI impI)
  fix srv :: "nat \<Rightarrow> fetch_outcome" and k st
  assume h: "k \<le> 3 \<and> (\<forall>j<k. retried (srv j)) \<and> srv k = Response st True \<and> 400 \<le> st \<and> st < 500"
  then have nr: "\<not> retried (srv k)" and nok: "\<not> response_ok st"
    by (simp_all add: response_ok_def)
  from h nr have "callWebhook e n srv = (response_ok st, retry_trace e n 0 k)"
    by (intro callWebhook_final[where t=True]) simp_all
  with nok show "callWebhook e n srv = (False, retry_trace e n 0 k)" by simp
next
  fix srv :: "nat \<Rightarrow> fetch_outcome" and k st t
  assume h: "k \<le> 3 \<and> (\<forall>j<k. retried (srv j)) \<and> srv k = Response st t \<and> response_ok st"
  then have nr: "\<not> retried (srv k)" by simp
  from h nr have "callWebhook e n srv = (response_ok st, retry_trace e n 0 k)"
    by (intro callWebhook_final[where t=t]) simp_all
  with h show "callWebhook e n srv = (True, retry_trace e n 0 k)" by simp
next
  fix srv :: "nat \<Rightarrow> fetch_outcome" assume "\<forall>j\<le>3. retried (srv j)"
  then show "callWebhook e n srv = (False, retry_trace e n 0 3)"
    using loop_all_retried[of 0 srv e n "[]"] by (simp add: callWebhook_def)
next
  show "retried NetworkError" by simp
next
  fix st :: nat and t assume "500 \<le> st"
  then show "retried (Response st t)" by (simp add: response_ok_def)
next
  fix srv
  show "fetches (snd (callWebhook e n srv)) \<le> 4" using callWebhook_bounds by blast
  show "sleeps (snd (callWebhook e n srv)) =
          map (\<lambda>j. 1000 * 2 ^ j) [0..<fetches (snd (callWebhook e n srv)) - 1]"
    using callWebhook_bounds by blast
next
  have "callWebhook e n server_500x3_then_200 = (response_ok 200, retry_trace e n 0 3)"
    by (rule callWebhook_final[where t=True])
       (simp_all add: server_500x3_then_200_def response_ok_def)
  then show "callWebhook e n server_500x3_then_200 =
         (True, [Fetch e n, Sleep 1000, Fetch e n, Sleep 2000, Fetch e n, Sleep 4000, Fetch e n])"
    by (simp add: retry_trace_3 response_ok_def)
qed

text \<open>
  A server that answers 403 with a readable body: one request, result \<open>False\<close>; three
  500s and a 200: \<open>True\<close>; a server that is down: four requests, \<open>False\<close>.
\<close>

theorem callWebhook_retry_policy_witness:
  "server_403 0 = Response 403 True \<and>
   callWebhook ''acct1'' (Some ''s1'') server_403 = (False, [Fetch ''acct1'' (Some ''s1'')]) \<and>
   retried (server_500x3_then_200 0) \<and> retried (server_500x3_then_200 1) \<and>
   retried (server_500x3_then_200 2) \<and>
   server_500x3_then_200 3 = Response 200 True \<and> response_ok 200 \<and>
   callWebhook ''acct1'' (Some ''s1'') server_500x3_then_200 =
     (True, retry_trace ''acct1'' (Some ''s1'') 0 3) \<and>
   retried (server_down 0) \<and> retried (server_down 1) \<and> retried (server_down 2) \<and>
   retried (server_down 3) \<and>
   callWebhook ''acct1'' (Some ''s1'') server_down =
     (False, [Fetch ''acct1'' (Some ''s1''), Sleep 1000, Fetch ''acct1'' (Some ''s1''), Sleep 2000,
              Fetch ''acct1'' (Some ''s1''), Sleep 4000, Fetch ''acct1'' (Some ''s1'')])"
proof -
  note pol = callWebhook_retry_policy[of "''acct1''" "Some ''s1''"]
  have s: "server_403 0 = Response 403 True" by (simp add: server_403_def)
  from pol
  have "(0::nat) \<le> 3 \<and> (\<forall>j<0. retried (server_403 j)) \<and> server_403 0 = Response 403 True \<and>
        (400::nat) \<le> 403 \<and> (403::nat) < 500 \<longrightarrow>
        callWebhook ''acct1'' (Some ''s1'') server_403 = (False, retry_trace ''acct1'' (Some ''s1'') 0 0)"
    by blast
  with s have A: "callWebhook ''acct1'' (Some ''s1'') server_403 = (False, [Fetch ''acct1'' (Some ''s1'')])"
    by (simp add: retry_trace_same)
  have r3: "\<forall>j<3. retried (server_500x3_then_200 j)"
    "server_500x3_then_200 3 = Response 200 True" "response_ok 200"
    by (simp_all add: server_500x3_then_200_def response_ok_def)
  from pol
  have "(3::nat) \<le> 3 \<and> (\<forall>j<3. retried (server_500x3_then_200 j)) \<and>
        server_500x3_then_200 3 = Response 200 True \<and> response_ok 200 \<longrightarrow>
        callWebhook ''acct1'' (Some ''s1'') server_500x3_then_200 =
          (True, retry_trace ''acct1'' (Some ''s1'') 0 3)"
    by blast
  with r3 have B: "callWebhook ''acct1'' (Some ''s1'') server_500x3_then_200 =
          (True, retry_trace ''acct1'' (Some ''s1'') 0 3)" by simp
  have d: "\<forall>j\<le>3. retried (server_down j)" by (simp add: server_down_def)
  from pol d have "callWebhook ''acct1'' (Some ''s1'') server_down =
      (False, retry_trace ''acct1'' (Some ''s1'') 0 3)" by blast
  then have C: "callWebhook ''acct1'' (Some ''s1'') server_down =
     (False, [Fetch ''acct1'' (Some ''s1''), Sleep 1000, Fetch ''acct1'' (Some ''s1''), Sleep 2000,
              Fetch ''acct1'' (Some ''s1''), Sleep 4000, Fetch ''acct1'' (Some ''s1'')])"
    by (simp add: retry_trace_3)
  have e: "retried (server_500x3_then_200 0)" "retried (server_500x3_then_200 1)"
    "retried (server_500x3_then_200 2)" "retried (server_down 0)" "retried (server_down 1)"
    "retried (server_down 2)" "retried (server_down 3)"
    by (simp_all add: server_500x3_then_200_def server_down_def response_ok_def)
  from s A r3(2,3) B C e show ?thesis by blast
qed

text \<open>
  Not every 4xx response ends the call with \<open>False\<close> after one request.
\<close>

theorem callWebhook_4xx_counterexample:
  "\<not> (\<forall>srv st t. srv 0 = Response st t \<and> 400 \<le> st \<and> st < 500 \<longrightarrow>
         callWebhook ''acct1'' None srv = (False, [Fetch ''acct1'' None]))"
proof
  assume a: "\<forall>srv st t. srv 0 = Response st t \<and> 400 \<le> st \<and> st < 500 \<longrightarrow>
         callWebhook ''acct1'' None srv = (False, [Fetch ''acct1'' None])"
  have s: "server_404_unreadable_then_200 0 = Response 404 False"
    by (simp add: server_404_unreadable_then_200_def)
  from a[rule_format, of server_404_unreadable_then_200 404 False] s
  have f: "callWebhook ''acct1'' None server_404_unreadable_then_200 = (False, [Fetch ''acct1'' None])"
    by simp
  have "callWebhook ''acct1'' None server_404_unreadable_then_200
          = (response_ok 200, retry_trace ''acct1'' None 0 1)"
    by (rule callWebhook_final[where t=True])
       (simp_all add: server_404_unreadable_then_200_def response_ok_def)
  with f show False by (simp add: response_ok_def)
qed

text \<open>
  Claim C4 fails on the code. A response with status 400-499 is meant to end the call at
  once (the branch is commented as the non-retryable error and returns \<open>false\<close>), but the
  branch awaits \<open>response.text()\<close> inside the \<open>try\<close>: when the first response is a 404
  whose body cannot be read, the rejection lands in the \<open>catch\<close>, the call waits 1000 ms,
  asks again and, the second response being a 200, returns \<open>true\<close>.
\<close>

theorem callWebhook_retries_unreadable_4xx:
  "server_404_unreadable_then_200 0 = Response 404 False \<and>
   callWebhook ''acct1'' None server_404_unreadable_then_200 =
     (True, [Fetch ''acct1'' None, Sleep 1000, Fetch ''acct1'' None])"
proof -
  have s: "server_404_unreadable_then_200 0 = Response 404 False"
    by (simp add: server_404_unreadable_then_200_def)
  have "callWebhook ''acct1'' None server_404_unreadable_then_200
          = (response_ok 200, retry_trace ''acct1'' None 0 1)"
    by (rule callWebhook_final[where t=True])
       (simp_all add: server_404_unreadable_then_200_def response_ok_def)
  then have "callWebhook ''acct1'' None server_404_unreadable_then_200 =
     (True, [Fetch ''acct1'' None, Sleep 1000, Fetch ''acct1'' None])"
    by (simp add: response_ok_def retry_trace_def)
  with s show ?thesis by simp
qed

section \<open>Properties of the label adapter\<close>

lemma toUpper_consts:
  "toUpperCase ''PROCESSED'' = ''PROCESSED''"
  "toUpperCase ''AI_DRAFT'' = ''AI_DRAFT''"
  "toUpperCase ''AWAITING_REPLY'' = ''AWAITING_REPLY''"
  "toUpperCase ''NEEDS_REPLY'' = ''NEEDS_REPLY''"
  "toUpperCase ''COLD_EMAIL'' = ''COLD_EMAIL''"
  "toUpperCase ''NEWSLETTER'' = ''NEWSLETTER''"
  by (simp_all add: toUpperCase_def is_lower_def)

text \<open>
  Claim C8. For every keyword of \<open>INBOX_ZERO_LABELS\<close> (IZ_Processed, IZ_AIDraft,
  IZ_AwaitingReply, IZ_NeedsReply, IZ_ColdEmail, IZ_Newsletter), turning it into its
  label with \<open>keywordToLabel\<close> and back with \<open>labelToKeyword\<close> gives the keyword.
\<close>

theorem label_keyword_roundtrip:
  "\<forall>k \<in> set (map snd INBOX_ZERO_LABELS). labelToKeyword (keywordToLabel k) = k"
  by (simp add: INBOX_ZERO_LABELS_def INBOX_ZERO_KEYWORD_PREFIX_def keywordToLabel_def
      labelToKeyword_def toUpper_consts)

text \<open>
  IZ_AwaitingReply becomes the label AWAITING_REPLY and comes back.
\<close>

theorem label_keyword_roundtrip_witness:
  "''IZ_AwaitingReply'' \<in> set (map snd INBOX_ZERO_LABELS) \<and>
   keywordToLabel ''IZ_AwaitingReply'' = ''AWAITING_REPLY'' \<and>
   labelToKeyword (keywordToLabel ''IZ_AwaitingReply'') = ''IZ_AwaitingReply''"
proof -
  have m: "''IZ_AwaitingReply'' \<in> set (map snd INBOX_ZERO_LABELS)"
    by (simp add: INBOX_ZERO_LABELS_def INBOX_ZERO_KEYWORD_PREFIX_def)
  have l: "keywordToLabel ''IZ_AwaitingReply'' = ''AWAITING_REPLY''"
    by (simp add: INBOX_ZERO_LABELS_def INBOX_ZERO_KEYWORD_PREFIX_def keywordToLabel_def)
  from label_keyword_roundtrip m l show ?thesis by blast
qed

text \<open>
  Claim C9. When the capabilities say the server has no keyword support and no message
  id is given (none, or the empty string), \<open>smartAddLabel\<close> and \<open>smartRemoveLabel\<close>
  throw their error and send nothing to the server: neither returns normally.
\<close>

theorem smart_label_without_keywords_or_message_id:
  assumes "\<not> supportsKeywords capabilities" and "\<not> truthy mid"
  shows "smartAddLabel conn u label capabilities folder mid =
           (Some (Error ''Cannot add label without keyword support and no message ID provided''), [])
         \<and> smartRemoveLabel conn u label capabilities folder mid =
           (Some (Error ''Cannot remove label without keyword support and no message ID provided''), [])"
  using assms by (simp add: smartAddLabel_def smartRemoveLabel_def)

text \<open>
  Labelling message 7 as Archived on a server without keywords, with no message id.
\<close>

theorem smart_label_without_keywords_or_message_id_witness:
  "\<not> supportsKeywords no_keyword_server \<and> \<not> truthy None \<and>
   fst (smartAddLabel accepting_connection 7 ''Archived'' no_keyword_server (Some ''INBOX'') None) \<noteq> None \<and>
   fst (smartRemoveLabel accepting_connection 7 ''Archived'' no_keyword_server (Some ''INBOX'') None) \<noteq> None"
proof -
  have a: "\<not> supportsKeywords no_keyword_server" by (simp add: no_keyword_server_def)
  have b: "\<not> truthy None" by simp
  from smart_label_without_keywords_or_message_id[OF a b, of accepting_connection 7 "''Archived''" "Some ''INBOX''"] a b
  show ?thesis by simp
qed

section \<open>Properties of the thread resolver\<close>

text \<open>
  Claim C7. \<open>generateThreadId\<close> hashes the In-Reply-To identifier when there is one
  (a non-empty string), otherwise the first reference when there is any, otherwise the
  message's own identifier; what is hashed is the identifier without angle brackets,
  in lower case, trimmed, and the thread id is \<open>thread_\<close> followed by the first 24
  characters of the digest.
\<close>

theorem generateThreadId_precedence:
  "(truthy irt \<longrightarrow>
      generateThreadId H mid irt refs subj =
        ''thread_'' @ take 24 (H (trim (toLowerCase (filter (\<lambda>c. c \<noteq> CHR ''<'' \<and> c \<noteq> CHR ''>'') (the irt))))))
   \<and> (\<not> truthy irt \<and> refs \<noteq> [] \<longrightarrow>
      generateThreadId H mid irt refs subj =
        ''thread_'' @ take 24 (H (trim (toLowerCase (filter (\<lambda>c. c \<noteq> CHR ''<'' \<and> c \<noteq> CHR ''>'') (hd refs))))))
   \<and> (\<not> truthy irt \<and> refs = [] \<longrightarrow>
      generateThreadId H mid irt refs subj =
        ''thread_'' @ take 24 (H (trim (toLowerCase (filter (\<lambda>c. c \<noteq> CHR ''<'' \<and> c \<noteq> CHR ''>'') mid)))))"
  by (cases refs) (simp_all add: hashToThreadId_def Let_def)


text \<open>
  The three cases on concrete headers, with the identity in place of the digest.
\<close>

theorem generateThreadId_precedence_witness:
  "truthy (Some '' <Parent@X.org> '') \<and>
   generateThreadId (\<lambda>s. s) ''<m@x>'' (Some '' <Parent@X.org> '') [''<root@x>''] ''Re: hi''
     = ''thread_parent@x.org'' \<and>
   \<not> truthy None \<and> [''<Root@x>'', ''<p@x>''] \<noteq> [] \<and>
   generateThreadId (\<lambda>s. s) ''<m@x>'' None [''<Root@x>'', ''<p@x>''] ''Re: hi'' = ''thread_root@x'' \<and>
   generateThreadId (\<lambda>s. s) ''<M@x>'' None [] ''hi'' = ''thread_m@x''"
proof -
  have n: "trim (toLowerCase (filter (\<lambda>c. c \<noteq> CHR ''<'' \<and> c \<noteq> CHR ''>'') '' <Parent@X.org> '')) = ''parent@x.org''"
    "trim (toLowerCase (filter (\<lambda>c. c \<noteq> CHR ''<'' \<and> c \<noteq> CHR ''>'') ''<Root@x>'')) = ''root@x''"
    "trim (toLowerCase (filter (\<lambda>c. c \<noteq> CHR ''<'' \<and> c \<noteq> CHR ''>'') ''<M@x>'')) = ''m@x''"
    by code_simp+
  from generateThreadId_precedence[of "Some '' <Parent@X.org> ''" "\<lambda>s. s" "''<m@x>''" "[''<root@x>'']" "''Re: hi''"]
    generateThreadId_precedence[of None "\<lambda>s. s" "''<m@x>''" "[''<Root@x>'', ''<p@x>'']" "''Re: hi''"]
    generateThreadId_precedence[of None "\<lambda>s. s" "''<M@x>''" "[]" "''hi''"]
    n
  show ?thesis by simp
qed

lemma reply_chain_index:
  "collect_thread_ids reply_chain =
     [''<a@x>'' \<mapsto> ''thread_b'', ''<b@x>'' \<mapsto> ''thread_c'', ''<c@x>'' \<mapsto> ''thread_d'',
      ''<d@x>'' \<mapsto> ''thread_d'']"
  by (simp add: collect_thread_ids_def reply_chain_def mail_a_def mail_b_def mail_c_def mail_d_def)

lemma reply_chain_merge:
  "merge_threads reply_chain =
     [''thread_b'' \<mapsto> ''thread_c'', ''thread_c'' \<mapsto> ''thread_d'', ''thread_d'' \<mapsto> ''thread_d'']"
  unfolding merge_threads_def reply_chain_index
  by (simp add: reply_chain_def mail_a_def mail_b_def mail_c_def mail_d_def
      merge_message_def merge_reference_def get_or_self_def Let_def)

lemma reply_chain_groups:
  "group_by_final_id (merge_threads reply_chain) reply_chain =
     [(''thread_c'', [mail_a]), (''thread_d'', [mail_b, mail_c, mail_d])]"
  unfolding reply_chain_merge
  by (simp add: group_by_final_id_def reply_chain_def get_or_self_def
      mail_a_def mail_b_def mail_c_def mail_d_def)

text \<open>
  Claim C1 fails on the code. In the conversation \<open>reply_chain\<close> message a replies to b
  and b replies to c (and c to d), yet \<open>groupMessagesIntoThreads\<close> lists a alone under
  one thread id and b, c, d under another: the merge map sends a's thread id to the id
  that b's own entry maps onwards later, and the third pass looks the map up once.
\<close>

theorem groupMessagesIntoThreads_splits_reply_chain:
  "groupMessagesIntoThreads reply_chain =
     [(''thread_c'', [mail_a]), (''thread_d'', [mail_d, mail_c, mail_b])]
   \<and> points_at mail_a mail_b \<and> points_at mail_b mail_c
   \<and> listed_under (groupMessagesIntoThreads reply_chain) mail_a = [''thread_c'']
   \<and> listed_under (groupMessagesIntoThreads reply_chain) mail_b = [''thread_d'']
   \<and> listed_under (groupMessagesIntoThreads reply_chain) mail_c = [''thread_d'']"
proof -
  have g: "groupMessagesIntoThreads reply_chain =
     [(''thread_c'', [mail_a]), (''thread_d'', [mail_d, mail_c, mail_b])]"
    unfolding groupMessagesIntoThreads_def reply_chain_groups
    by (simp add: mail_a_def mail_b_def mail_c_def mail_d_def)
  have p: "points_at mail_a mail_b" "points_at mail_b mail_c"
    by (simp_all add: points_at_def mail_a_def mail_b_def mail_c_def)
  have l: "listed_under [(''thread_c'', [mail_a]), (''thread_d'', [mail_d, mail_c, mail_b])] mail_a = [''thread_c'']"
    "listed_under [(''thread_c'', [mail_a]), (''thread_d'', [mail_d, mail_c, mail_b])] mail_b = [''thread_d'']"
    "listed_under [(''thread_c'', [mail_a]), (''thread_d'', [mail_d, mail_c, mail_b])] mail_c = [''thread_d'']"
    by (simp_all add: listed_under_def mail_a_def mail_b_def mail_c_def mail_d_def)
  from g p l show ?thesis by simp
qed

section \<open>Properties of the poll engine\<close>

text \<open>
  Claim C2, as the code has it. For an account the database returns: when the user has
  no AI access (plan or API key) or the account has no enabled rule, the result is
  \<open>skipped\<close> and nothing is processed or written; when a Fastmail account that is due,
  has AI access and has a rule lacks its access token, the result is \<open>error\<close> with the
  message "Missing authentication tokens".
\<close>

theorem pollFastmailAccount_skips:
  assumes "find_account env eid = Inr (Some a)"
  shows "(\<not> has_ai_access env (tier_or_null a) (aiApiKey a) \<or> rules a = [] \<longrightarrow>
            status (fst (pollFastmailAccount env eid force)) = Skipped \<and>
            snd (pollFastmailAccount env eid force) = [])
       \<and> (is_fastmail a \<and> (force \<or> \<not> recently_polled env a) \<and>
            has_ai_access env (tier_or_null a) (aiApiKey a) \<and> rules a \<noteq> [] \<and>
            \<not> has_access_token a \<longrightarrow>
            pollFastmailAccount env eid force =
              (early_result eid (email a) Failed ''Missing authentication tokens'', []))"
  using assms by (auto simp: pollFastmailAccount_def early_result_def)

text \<open>
  An account without rules is skipped; an account without access token is an error.
\<close>

theorem pollFastmailAccount_skips_witness:
  "find_account example_env ''acct2'' = Inr (Some account_without_rules) \<and>
   rules account_without_rules = [] \<and>
   status (fst (pollFastmailAccount example_env ''acct2'' True)) = Skipped \<and>
   find_account example_env ''acct1'' = Inr (Some account_without_token) \<and>
   \<not> has_access_token account_without_token \<and>
   status (fst (pollFastmailAccount example_env ''acct1'' True)) = Failed"
proof -
  have f: "find_account example_env ''acct2'' = Inr (Some account_without_rules)"
    by (simp add: example_env_def)
  have r: "rules account_without_rules = []" by (simp add: account_without_rules_def)
  have f1: "find_account example_env ''acct1'' = Inr (Some account_without_token)"
    by (simp add: example_env_def)
  have h: "is_fastmail account_without_token" "\<not> has_access_token account_without_token"
    "rules account_without_token \<noteq> []"
    "has_ai_access example_env (tier_or_null account_without_token) (aiApiKey account_without_token)"
    by (simp_all add: account_without_token_def is_fastmail_def has_access_token_def
        example_env_def tier_or_null_def)
  from pollFastmailAccount_skips[OF f, of True] pollFastmailAccount_skips[OF f1, of True] f r f1 h
  show ?thesis by (simp add: early_result_def)
qed

text \<open>
  Claim C2 as stated fails: an account that lacks its access token is not always
  reported as \<open>skipped\<close>. \<open>account_without_token\<close> is reported as \<open>error\<close>.
\<close>

theorem pollFastmailAccount_missing_token_counterexample:
  "\<not> (\<forall>env eid force a. find_account env eid = Inr (Some a) \<and> \<not> has_access_token a \<longrightarrow>
         status (fst (pollFastmailAccount env eid force)) = Skipped)"
proof
  assume a: "\<forall>env eid force a. find_account env eid = Inr (Some a) \<and> \<not> has_access_token a \<longrightarrow>
         status (fst (pollFastmailAccount env eid force)) = Skipped"
  have f: "find_account example_env ''acct1'' = Inr (Some account_without_token)"
    by (simp add: example_env_def)
  have n: "\<not> has_access_token account_without_token"
    by (simp add: has_access_token_def account_without_token_def)
  from a[rule_format, of example_env "''acct1''" account_without_token False] f n
  have "status (fst (pollFastmailAccount example_env ''acct1'' False)) = Skipped" by simp
  moreover have "status (fst (pollFastmailAccount example_env ''acct1'' False)) = Failed"
    by (simp add: pollFastmailAccount_def example_env_def account_without_token_def
        is_fastmail_def recently_polled_def tier_or_null_def has_access_token_def early_result_def)
  ultimately show False by simp
qed

section \<open>Properties of the account manager\<close>

text \<open>
  The second loop of \<open>refreshAccounts\<close>, suspended at each session request and resumed
  with nothing in between, does what the loop run in one go does.
\<close>

lemma complete_next_add:
  "complete_task sessions (next_add initial cur accounts) s = add_new sessions cur accounts s"
proof (induction accounts arbitrary: s)
  case Nil then show ?case by simp
next
  case (Cons row rest)
  show ?case
  proof (cases "row_id row \<notin> set cur \<and> addConnection_token row \<noteq> None")
    case True
    then show ?thesis using Cons.IH by simp
  next
    case False
    then have "(if row_id row \<notin> set cur then addConnection row (sessions row) s else s) = s"
      by (auto simp: addConnection_def)
    with False Cons.IH show ?thesis by auto
  qed
qed

lemma wf_new: "manager_wf new_manager"
  by (simp add: manager_wf_def new_manager_def)

lemma close_client_simps:
  "connections (close_client r s) = connections s"
  "length (clients (close_client r s)) = length (clients s)"
  "r' \<noteq> r \<Longrightarrow> clients (close_client r s) ! r' = clients s ! r'"
  "tasks (close_client r s) = tasks s"
  by (simp_all add: close_client_def)

lemma wf_same:
  "manager_wf s \<Longrightarrow> connections s' = connections s \<Longrightarrow>
   length (clients s') = length (clients s) \<Longrightarrow> manager_wf s'"
  by (simp add: manager_wf_def)

lemma wf_close_client: "manager_wf s \<Longrightarrow> manager_wf (close_client r s)"
  by (erule wf_same) (simp_all add: close_client_simps)

lemma wf_delete:
  assumes "manager_wf s"
  shows "manager_wf (s\<lparr>connections := AList.delete i (connections s)\<rparr>)"
proof -
  have sub: "map_of (AList.delete i (connections s)) k = Some m \<Longrightarrow> map_of (connections s) k = Some m"
    for k m by (simp add: delete_conv' split: if_splits)
  from assms show ?thesis
    unfolding manager_wf_def
    by (simp add: distinct_delete del: map_of_eq_Some_iff) (meson sub)
qed

lemma wf_remove_connection: "manager_wf s \<Longrightarrow> manager_wf (remove_connection new i s)"
  by (auto simp: remove_connection_def Let_def intro!: wf_delete wf_close_client split: option.splits)

lemma wf_remove_stale: "manager_wf s \<Longrightarrow> manager_wf (remove_stale new ids s)"
  unfolding remove_stale_def
  by (induction ids arbitrary: s) (auto intro: wf_remove_connection)

lemma wf_update:
  assumes "manager_wf s" "managed_client m0 = length (clients s)"
  shows "manager_wf (s\<lparr>clients := clients s @ [c], connections := AList.update i m0 (connections s)\<rparr>)"
proof -
  let ?al = "AList.update i m0 (connections s)"
  have d: "distinct (map fst ?al)" using assms(1) by (simp add: manager_wf_def distinct_update)
  have old: "map_of (connections s) k = Some m \<Longrightarrow> managed_client m < length (clients s)" for k m
    using assms(1) unfolding manager_wf_def by blast
  have inj: "map_of (connections s) k = Some m \<Longrightarrow> map_of (connections s) k' = Some m' \<Longrightarrow>
        managed_client m = managed_client m' \<Longrightarrow> k = k'" for k k' m m'
    using assms(1) unfolding manager_wf_def by blast
  have cases: "map_of ?al k = Some m \<Longrightarrow> (k = i \<and> m = m0) \<or> (k \<noteq> i \<and> map_of (connections s) k = Some m)"
    for k m by (simp add: update_conv' split: if_splits)
  have v: "map_of ?al k = Some m \<Longrightarrow> managed_client m < Suc (length (clients s))" for k m
    using cases[of k m] old[of k m] assms(2) by auto
  have j: "map_of ?al k = Some m \<Longrightarrow> map_of ?al k' = Some m' \<Longrightarrow>
        managed_client m = managed_client m' \<Longrightarrow> k = k'" for k k' m m'
    using cases[of k m] cases[of k' m'] old[of k m] old[of k' m'] inj[of k m k' m'] assms(2)
    by auto
  show ?thesis
    unfolding manager_wf_def using d v j
    by (simp del: map_of_eq_Some_iff)
qed

lemma wf_addConnection_resume:
  "manager_wf s \<Longrightarrow> manager_wf (addConnection_resume row token session s)"
  unfolding addConnection_resume_def Let_def
  by (auto intro!: wf_update split: option.splits)

lemma wf_addConnection: "manager_wf s \<Longrightarrow> manager_wf (addConnection row session s)"
  by (auto simp: addConnection_def wf_addConnection_resume split: option.splits)

lemma wf_set_task: "manager_wf s \<Longrightarrow> manager_wf (set_task i initial t s)"
  by (erule wf_same) (simp_all add: set_task_def Let_def)

lemma wf_stop: "manager_wf (stop s)"
  by (simp add: manager_wf_def stop_def Let_def)

lemma wf_step: "manager_wf s \<Longrightarrow> manager_step e s = Some s' \<Longrightarrow> manager_wf s'"
proof (cases e)
  case Start
  assume "manager_wf s" "manager_step e s = Some s'"
  with Start show ?thesis by (auto elim: wf_same split: if_splits)
next
  case Stop
  assume "manager_step e s = Some s'"
  with Stop show ?thesis by (auto simp: wf_stop)
next
  case Tick
  assume "manager_wf s" "manager_step e s = Some s'"
  with Tick show ?thesis by (auto elim: wf_same split: if_splits)
next
  case (AccountsLoaded i fetched)
  assume "manager_wf s" "manager_step e s = Some s'"
  with AccountsLoaded show ?thesis
    by (auto simp: Let_def intro!: wf_set_task wf_remove_stale split: if_splits task.splits sum.splits)
next
  case (SessionLoaded i session)
  assume "manager_wf s" "manager_step e s = Some s'"
  with SessionLoaded show ?thesis
    by (auto intro!: wf_set_task wf_addConnection split: if_splits task.splits)
qed

lemma wf_run: "manager_wf s \<Longrightarrow> manager_run es s = Some s' \<Longrightarrow> manager_wf s'"
proof (induction es arbitrary: s)
  case Nil then show ?case by simp
next
  case (Cons e es)
  then obtain s1 where a: "manager_step e s = Some s1" and b: "manager_run es s1 = Some s'"
    by (auto split: option.splits)
  from Cons.IH[OF wf_step[OF Cons.prems(1) a] b] show ?case .
qed

text \<open>The map: what each loop leaves alone.\<close>

lemma map_remove_connection:
  "k \<noteq> i \<or> i \<in> set new \<Longrightarrow>
   map_of (connections (remove_connection new i s)) k = map_of (connections s) k"
  by (auto simp: remove_connection_def Let_def close_client_simps split: option.splits)

lemma map_remove_stale:
  "k \<in> set new \<or> k \<notin> set ids \<Longrightarrow>
   map_of (connections (remove_stale new ids s)) k = map_of (connections s) k"
  unfolding remove_stale_def
proof (induction ids arbitrary: s)
  case Nil then show ?case by simp
next
  case (Cons i ids)
  then have a: "k \<noteq> i \<or> i \<in> set new" and b: "k \<in> set new \<or> k \<notin> set ids" by auto
  from Cons.IH[OF b] map_remove_connection[OF a] show ?case by simp
qed

lemma map_removed:
  "k \<in> set ids \<Longrightarrow> k \<notin> set new \<Longrightarrow> map_of (connections (remove_stale new ids s)) k = None"
  unfolding remove_stale_def
proof (induction ids arbitrary: s)
  case Nil then show ?case by simp
next
  case (Cons i ids)
  show ?case
  proof (cases "k \<in> set ids")
    case True
    from Cons.IH[OF True Cons.prems(2)] show ?thesis by simp
  next
    case False
    with Cons.prems have ki: "k = i" by simp
    have "map_of (connections (remove_connection new i s)) k = None"
      using ki Cons.prems(2)
      by (auto simp: remove_connection_def Let_def close_client_simps delete_conv' split: option.splits)
    moreover have "map_of (connections (remove_stale new ids (remove_connection new i s))) k
        = map_of (connections (remove_connection new i s)) k"
      using False by (intro map_remove_stale) simp
    ultimately show ?thesis by (simp add: remove_stale_def)
  qed
qed

lemma map_addConnection:
  "k \<noteq> row_id row \<Longrightarrow> map_of (connections (addConnection row session s)) k = map_of (connections s) k"
  by (auto simp: addConnection_def addConnection_resume_def Let_def update_conv' split: option.splits)

lemma map_add_new:
  "k \<in> set cur \<or> k \<notin> set (map row_id accounts) \<Longrightarrow>
   map_of (connections (add_new sessions cur accounts s)) k = map_of (connections s) k"
proof (induction accounts arbitrary: s)
  case Nil then show ?case by simp
next
  case (Cons row rest)
  then have r: "k \<in> set cur \<or> k \<notin> set (map row_id rest)" by auto
  show ?case
  proof (cases "row_id row \<notin> set cur")
    case True
    with Cons.prems have "k \<noteq> row_id row" by auto
    from map_addConnection[OF this] Cons.IH[OF r] True show ?thesis by simp
  next
    case False
    with Cons.IH[OF r] show ?thesis by simp
  qed
qed

text \<open>The heap: clients are only ever closed through a stale entry, or appended.\<close>

lemma clients_remove_connection:
  assumes "manager_wf s" "map_of (connections s) k = Some m" "k \<noteq> i \<or> i \<in> set new"
  shows "clients (remove_connection new i s) ! managed_client m = clients s ! managed_client m"
proof (cases "i \<in> set new")
  case True then show ?thesis by (simp add: remove_connection_def)
next
  case False
  with assms(3) have ki: "k \<noteq> i" by simp
  show ?thesis
  proof (cases "map_of (connections s) i")
    case None
    with False show ?thesis by (simp add: remove_connection_def Let_def)
  next
    case (Some mi)
    from assms(1) assms(2) Some ki have "managed_client mi \<noteq> managed_client m"
      unfolding manager_wf_def by metis
    then have "managed_client m \<noteq> managed_client mi" by simp
    with False Some show ?thesis
      by (simp add: remove_connection_def Let_def close_client_simps)
  qed
qed

lemma clients_remove_stale:
  assumes "manager_wf s" "map_of (connections s) k = Some m" "k \<in> set new \<or> k \<notin> set ids"
  shows "clients (remove_stale new ids s) ! managed_client m = clients s ! managed_client m"
  using assms unfolding remove_stale_def
proof (induction ids arbitrary: s)
  case Nil then show ?case by simp
next
  case (Cons i ids)
  then have a: "k \<noteq> i \<or> i \<in> set new" and b: "k \<in> set new \<or> k \<notin> set ids" by auto
  have wf': "manager_wf (remove_connection new i s)" by (rule wf_remove_connection[OF Cons.prems(1)])
  have m': "map_of (connections (remove_connection new i s)) k = Some m"
    using map_remove_connection[OF a] Cons.prems(2) by simp
  from Cons.IH[OF wf' m' b] clients_remove_connection[OF Cons.prems(1,2) a]
  show ?case by simp
qed

lemma clients_addConnection:
  "r < length (clients s) \<Longrightarrow>
   clients (addConnection row session s) ! r = clients s ! r \<and>
   length (clients s) \<le> length (clients (addConnection row session s))"
  by (auto simp: addConnection_def addConnection_resume_def Let_def nth_append split: option.splits)

lemma clients_add_new:
  "r < length (clients s) \<Longrightarrow>
   clients (add_new sessions cur accounts s) ! r = clients s ! r \<and>
   length (clients s) \<le> length (clients (add_new sessions cur accounts s))"
proof (induction accounts arbitrary: s)
  case Nil then show ?case by simp
next
  case (Cons row rest)
  let ?s1 = "if row_id row \<notin> set cur then addConnection row (sessions row) s else s"
  have 1: "clients ?s1 ! r = clients s ! r \<and> length (clients s) \<le> length (clients ?s1)"
    using clients_addConnection[OF Cons.prems] by simp
  then have "r < length (clients ?s1)" using Cons.prems by simp
  from Cons.IH[OF this] 1 show ?case by simp
qed

lemma length_remove_stale: "length (clients (remove_stale new ids s)) = length (clients s)"
  unfolding remove_stale_def
  by (induction ids arbitrary: s)
     (auto simp: remove_connection_def Let_def close_client_simps split: option.splits)

text \<open>
  Claim C5. In every state the manager reaches, a reconciliation cycle leaves an account
  that is managed and is in the newly fetched list exactly as it was: the same map entry,
  referring to the same client object in the same state (not closed, not replaced). An
  entry of the map changes only for an id that is managed and no longer listed, or
  listed and not yet managed; a managed id that is no longer listed is removed; and when
  fetching the list throws, the cycle changes nothing.
\<close>

theorem refreshAccounts_leaves_unchanged_accounts:
  assumes "manager_run evs new_manager = Some s"
  shows "(\<forall>k m. map_of (connections s) k = Some m \<and> k \<in> set (map row_id accounts) \<longrightarrow>
            map_of (connections (refreshAccounts (Inr accounts) sessions s)) k = Some m \<and>
            clients (refreshAccounts (Inr accounts) sessions s) ! managed_client m
              = clients s ! managed_client m)
       \<and> (\<forall>k. map_of (connections (refreshAccounts (Inr accounts) sessions s)) k
                 \<noteq> map_of (connections s) k \<longrightarrow>
            (k \<in> set (map fst (connections s)) \<and> k \<notin> set (map row_id accounts)) \<or>
            (k \<notin> set (map fst (connections s)) \<and> k \<in> set (map row_id accounts)))
       \<and> (\<forall>k. k \<in> set (map fst (connections s)) \<and> k \<notin> set (map row_id accounts) \<longrightarrow>
            map_of (connections (refreshAccounts (Inr accounts) sessions s)) k = None)
       \<and> refreshAccounts (Inl err) sessions s = s"
proof -
  let ?cur = "map fst (connections s)"
  let ?new = "map row_id accounts"
  let ?s1 = "remove_stale ?new ?cur s"
  let ?s' = "refreshAccounts (Inr accounts) sessions s"
  have eq: "?s' = add_new sessions ?cur accounts ?s1"
    by (simp add: refreshAccounts_def Let_def)
  have wf: "manager_wf s" by (rule wf_run[OF wf_new assms])
  have wf1: "manager_wf ?s1" by (rule wf_remove_stale[OF wf])
  have kept: "map_of (connections ?s') k = Some m \<and>
              clients ?s' ! managed_client m = clients s ! managed_client m"
    if km: "map_of (connections s) k = Some m" and kn: "k \<in> set ?new" for k m
  proof -
    from km have kc: "k \<in> set ?cur" by (metis domI dom_map_of_conv_image_fst set_map)
    have m1: "map_of (connections ?s1) k = Some m"
      using map_remove_stale[of k ?new ?cur s] kn km by simp
    have c1: "clients ?s1 ! managed_client m = clients s ! managed_client m"
      using clients_remove_stale[OF wf km, of ?new ?cur] kn by simp
    from wf1 m1 have r: "managed_client m < length (clients ?s1)"
      unfolding manager_wf_def by blast
    have m2: "map_of (connections ?s') k = Some m"
      unfolding eq using map_add_new[of k ?cur accounts sessions ?s1] kc m1 by simp
    have c2: "clients ?s' ! managed_client m = clients ?s1 ! managed_client m"
      unfolding eq using clients_add_new[OF r] by blast
    from m2 c2 c1 show ?thesis by simp
  qed
  have same_map: "map_of (connections ?s') k = map_of (connections s) k"
    if "(k \<in> set ?cur \<and> k \<in> set ?new) \<or> (k \<notin> set ?cur \<and> k \<notin> set ?new)" for k
  proof -
    from that have a: "k \<in> set ?new \<or> k \<notin> set ?cur" and b: "k \<in> set ?cur \<or> k \<notin> set ?new"
      by auto
    from map_remove_stale[OF a, of s] map_add_new[OF b, of sessions ?s1] show ?thesis
      unfolding eq by simp
  qed
  have removed: "map_of (connections ?s') k = None"
    if "k \<in> set ?cur" "k \<notin> set ?new" for k
  proof -
    have "map_of (connections ?s1) k = None" by (rule map_removed[OF that])
    moreover have "map_of (connections ?s') k = map_of (connections ?s1) k"
      unfolding eq using that(1) by (intro map_add_new) simp
    ultimately show ?thesis by simp
  qed
  have err: "refreshAccounts (Inl err) sessions s = s" by (simp add: refreshAccounts_def)
  show ?thesis
  proof (intro conjI allI impI)
    fix k m assume "map_of (connections s) k = Some m \<and> k \<in> set ?new"
    then show "map_of (connections ?s') k = Some m"
      and "clients ?s' ! managed_client m = clients s ! managed_client m"
      using kept by blast+
  next
    fix k assume "map_of (connections ?s') k \<noteq> map_of (connections s) k"
    with same_map[of k]
    show "(k \<in> set ?cur \<and> k \<notin> set ?new) \<or> (k \<notin> set ?cur \<and> k \<in> set ?new)" by blast
  next
    fix k assume "k \<in> set ?cur \<and> k \<notin> set ?new"
    then show "map_of (connections ?s') k = None" using removed by blast
  next
    show "refreshAccounts (Inl err) sessions s = s" by (rule err)
  qed
qed

lemma run_one_managed:
  "\<exists>s m. manager_run one_managed new_manager = Some s \<and>
     map_of (connections s) ''acct1'' = Some m \<and> managed_client m = 0 \<and>
     length (clients s) = 1 \<and> eventSource (clients s ! 0) = Some CONNECTING"
  by (simp add: one_managed_def new_manager_def row_a_def session_a_def set_task_def
      remove_stale_def addConnection_def addConnection_token_def addConnection_resume_def
      new_client_def connect_def emit_def buildUrl_def Let_def)

text \<open>
  With acct1 managed, a cycle that fetches acct1 and acct2 leaves acct1's entry and client
  alone.
\<close>

theorem refreshAccounts_leaves_unchanged_accounts_witness:
  "\<exists>s m. manager_run one_managed new_manager = Some s \<and>
     map_of (connections s) ''acct1'' = Some m \<and>
     ''acct1'' \<in> set (map row_id [row_a, row_b]) \<and>
     map_of (connections (refreshAccounts (Inr [row_a, row_b]) (\<lambda>r. Some session_a) s)) ''acct1''
       = Some m \<and>
     clients (refreshAccounts (Inr [row_a, row_b]) (\<lambda>r. Some session_a) s) ! managed_client m
       = clients s ! managed_client m \<and>
     ''acct1'' \<in> set (map fst (connections s)) \<and> ''acct1'' \<notin> set (map row_id [row_b]) \<and>
     map_of (connections (refreshAccounts (Inr [row_b]) (\<lambda>r. Some session_a) s)) ''acct1'' = None"
proof -
  from run_one_managed obtain s m
    where r: "manager_run one_managed new_manager = Some s"
      and m: "map_of (connections s) ''acct1'' = Some m" by blast
  have i: "''acct1'' \<in> set (map row_id [row_a, row_b])" by (simp add: row_a_def)
  from refreshAccounts_leaves_unchanged_accounts[OF r, of "[row_a, row_b]" "\<lambda>r. Some session_a"] m i
  have A: "map_of (connections (refreshAccounts (Inr [row_a, row_b]) (\<lambda>r. Some session_a) s)) ''acct1''
       = Some m \<and>
     clients (refreshAccounts (Inr [row_a, row_b]) (\<lambda>r. Some session_a) s) ! managed_client m
       = clients s ! managed_client m" by blast
  from m have k: "''acct1'' \<in> set (map fst (connections s))"
    by (metis domI dom_map_of_conv_image_fst set_map)
  have n: "''acct1'' \<notin> set (map row_id [row_b])" by (simp add: row_b_def)
  from refreshAccounts_leaves_unchanged_accounts[OF r, of "[row_b]" "\<lambda>r. Some session_a"] k n
  have B: "map_of (connections (refreshAccounts (Inr [row_b]) (\<lambda>r. Some session_a) s)) ''acct1'' = None"
    by blast
  from r m i A k n B show ?thesis by blast
qed

text \<open>
  Claim C6 fails on the code. When a second periodic refresh starts while the first is
  still waiting, both take their snapshot of the managed ids before either has added
  acct1, and both add it: the second \<open>connections.set\<close> overwrites the first entry
  without closing its client. At the end of \<open>overlapping_refreshes\<close> two clients of
  acct1 are live (0 and 1, both connecting) and the map refers to client 1 only.
\<close>

theorem overlapping_refreshes_two_live_clients:
  "map_option (\<lambda>s. (live_clients s ''acct1'',
                     map (\<lambda>(i, managed). (i, managed_client managed)) (connections s),
                     map closed (clients s),
                     map eventSource (clients s)))
     (manager_run overlapping_refreshes new_manager)
   = Some ([0, 1], [(''acct1'', 1)], [False, False], [Some CONNECTING, Some CONNECTING])"
  by code_simp

lemma next_add_ok: "task_ok (next_add initial cur rest)"
  by (induction rest) auto

lemma tasks_set_task:
  "list_all task_ok (tasks s) \<Longrightarrow> task_ok t \<Longrightarrow> list_all task_ok (tasks (set_task i initial t s))"
  by (auto simp: set_task_def Let_def list_all_iff dest!: set_update_subset_insert[THEN subsetD])

lemma tasks_remove_stale: "tasks (remove_stale new ids s) = tasks s"
  unfolding remove_stale_def
  by (induction ids arbitrary: s)
     (auto simp: remove_connection_def Let_def close_client_simps split: option.splits)

lemma tasks_addConnection: "tasks (addConnection row session s) = tasks s"
  by (auto simp: addConnection_def addConnection_resume_def Let_def split: option.splits)

lemma tasks_stop: "tasks (stop s) = tasks s"
proof -
  have "tasks (fold (\<lambda>(i, managed). close_client (managed_client managed)) al s1) = tasks s1"
    for al :: "(string \<times> ManagedAccount) list" and s1 :: manager
    by (induction al arbitrary: s1) (auto simp: close_client_simps)
  then show ?thesis by (simp add: stop_def Let_def)
qed

lemma tasks_ok_step:
  assumes "list_all task_ok (tasks s)" "manager_step e s = Some s'"
  shows "list_all task_ok (tasks s')"
proof (cases e)
  case Start with assms show ?thesis by (auto split: if_splits)
next
  case Stop with assms show ?thesis by (auto simp: tasks_stop)
next
  case Tick with assms show ?thesis by (auto split: if_splits)
next
  case (AccountsLoaded i fetched)
  with assms show ?thesis
    by (auto simp: Let_def tasks_remove_stale next_add_ok intro!: tasks_set_task
        split: if_splits task.splits sum.splits)
next
  case (SessionLoaded i session)
  with assms show ?thesis
    by (auto simp: tasks_addConnection next_add_ok intro!: tasks_set_task
        split: if_splits task.splits)
qed

lemma tasks_ok_run:
  "list_all task_ok (tasks s) \<Longrightarrow> manager_run es s = Some s' \<Longrightarrow> list_all task_ok (tasks s')"
proof (induction es arbitrary: s)
  case Nil then show ?case by simp
next
  case (Cons e es)
  then obtain s1 where a: "manager_step e s = Some s1" and b: "manager_run es s1 = Some s'"
    by (auto split: option.splits)
  from Cons.IH[OF tasks_ok_step[OF Cons.prems(1) a] b] show ?case .
qed

lemma set_task_frame:
  "connections (set_task i initial t s) = connections s"
  "clients (set_task i initial t s) = clients s"
  by (simp_all add: set_task_def Let_def)

text \<open>
  The same frame when cycles interleave: in every state the manager reaches, the step in
  which an invocation receives the account list, and every step in which it receives a
  session, leave alone each account that was managed when the invocation took its
  snapshot and is in (respectively, whatever is in) its list.
\<close>

lemma refresh_steps_leave_unchanged_accounts:
  assumes "manager_run evs new_manager = Some s" and "map_of (connections s) k = Some m"
  shows "k \<in> set (map row_id accounts) \<Longrightarrow>
         manager_step (AccountsLoaded i (Inr accounts)) s = Some s' \<Longrightarrow>
           map_of (connections s') k = Some m \<and>
           clients s' ! managed_client m = clients s ! managed_client m"
    and "i < length (tasks s) \<Longrightarrow> tasks s ! i = AwaitSession initial cur row rest \<Longrightarrow>
         k \<in> set cur \<Longrightarrow> manager_step (SessionLoaded i session) s = Some s'' \<Longrightarrow>
           map_of (connections s'') k = Some m \<and>
           clients s'' ! managed_client m = clients s ! managed_client m"
proof -
  have wf: "manager_wf s" by (rule wf_run[OF wf_new assms(1)])
  have ok: "list_all task_ok (tasks s)"
    by (rule tasks_ok_run[OF _ assms(1)]) (simp add: new_manager_def)
  from wf assms(2) have r: "managed_client m < length (clients s)"
    unfolding manager_wf_def by blast
  {
    assume kn: "k \<in> set (map row_id accounts)"
      and st: "manager_step (AccountsLoaded i (Inr accounts)) s = Some s'"
    let ?s1 = "remove_stale (map row_id accounts) (map fst (connections s)) s"
    from st have "connections s' = connections ?s1 \<and> clients s' = clients ?s1"
      by (auto simp: Let_def set_task_frame split: if_splits task.splits)
    moreover have "map_of (connections ?s1) k = Some m"
      using map_remove_stale[of k "map row_id accounts" "map fst (connections s)" s] kn assms(2)
      by simp
    moreover have "clients ?s1 ! managed_client m = clients s ! managed_client m"
      using clients_remove_stale[OF wf assms(2), of "map row_id accounts" "map fst (connections s)"] kn
      by simp
    ultimately show "map_of (connections s') k = Some m \<and>
           clients s' ! managed_client m = clients s ! managed_client m" by simp
  }
  {
    assume i: "i < length (tasks s)" and t: "tasks s ! i = AwaitSession initial cur row rest"
      and kc: "k \<in> set cur" and st: "manager_step (SessionLoaded i session) s = Some s''"
    from ok i t have "task_ok (AwaitSession initial cur row rest)"
      by (metis list_all_length)
    with kc have ne: "k \<noteq> row_id row" by auto
    from st i t have "connections s'' = connections (addConnection row session s) \<and>
                      clients s'' = clients (addConnection row session s)"
      by (auto simp: set_task_frame)
    with map_addConnection[OF ne, of session s] clients_addConnection[OF r, of row session] assms(2)
    show "map_of (connections s'') k = Some m \<and>
           clients s'' ! managed_client m = clients s ! managed_client m" by simp
  }
qed

end
